theory Spec2Isabelle
  imports Main "HOL-Library.Sublist" "HOL-Library.Char_ord" "HOL-Library.List_Lexorder"
begin

section \<open>Strings of the runtime\<close>

text \<open>
  A string is a list of 8-bit characters. The library functions of the runtime that the
  code calls on strings are modelled on the ASCII range: \<open>toLowerCase\<close> maps the
  letters \<open>A\<close>..\<open>Z\<close> and leaves every other character alone, and the white space of
  \<open>trim\<close> and of the regular expression class \<open>\s\<close> is space, tab, line feed,
  vertical tab, form feed and carriage return.
\<close>

definition lower_char :: "char \<Rightarrow> char" where
  "lower_char c =
     (case map_of (zip ''ABCDEFGHIJKLMNOPQRSTUVWXYZ'' ''abcdefghijklmnopqrstuvwxyz'') c of
        Some l \<Rightarrow> l
      | None \<Rightarrow> c)"

definition toLowerCase :: "string \<Rightarrow> string" where
  "toLowerCase s = map lower_char s"

text \<open>\<open>s.includes(sub)\<close>: \<open>sub\<close> occurs in \<open>s\<close> as a contiguous run.\<close>

fun str_includes :: "string \<Rightarrow> string \<Rightarrow> bool" where
  "str_includes [] sub = (sub = [])"
| "str_includes (c # cs) sub = (prefix sub (c # cs) \<or> str_includes cs sub)"

definition is_space :: "char \<Rightarrow> bool" where
  "is_space c = (c \<in> set [CHR '' '', CHR 0x09, CHR 0x0A, CHR 0x0B, CHR 0x0C, CHR 0x0D])"

definition trim :: "string \<Rightarrow> string" where
  "trim s = rev (dropWhile is_space (rev (dropWhile is_space s)))"

text \<open>The regular expression class \<open>\w\<close>: letters, digits and the underscore.\<close>

definition is_word :: "char \<Rightarrow> bool" where
  "is_word c =
     (let n = (of_char c :: nat) in
        (48 \<le> n \<and> n \<le> 57) \<or> (65 \<le> n \<and> n \<le> 90) \<or> (97 \<le> n \<and> n \<le> 122) \<or> n = 95)"

text \<open>\<open>s.split(sep)\<close> for a one-character separator.\<close>

fun split_on :: "char \<Rightarrow> string \<Rightarrow> string list" where
  "split_on sep [] = [[]]"
| "split_on sep (c # cs) =
     (if c = sep then [] # split_on sep cs
      else (case split_on sep cs of
              [] \<Rightarrow> [[c]]
            | p # ps \<Rightarrow> (c # p) # ps))"

text \<open>\<open>s.substring(0, n)\<close>.\<close>

definition substring0 :: "nat \<Rightarrow> string \<Rightarrow> string" where
  "substring0 n s = take n s"

section \<open>Error classifier (scim/formatter, ps-errors)\<close>

record ScimErrorInfo =
  status :: int
  scimType :: "string option"
  detail :: string

definition mapPsErrorToScim :: "string \<Rightarrow> ScimErrorInfo" where
  "mapPsErrorToScim stderr =
     (let msg = toLowerCase stderr in
      if str_includes msg ''already exists'' \<or> str_includes msg ''already in use''
      then \<lparr>status = 409, scimType = Some ''uniqueness'', detail = stderr\<rparr>
      else if str_includes msg ''cannot find an object with identity'' \<or>
              str_includes msg ''not found'' \<or>
              str_includes msg ''no such object''
      then \<lparr>status = 404, scimType = Some ''noTarget'', detail = stderr\<rparr>
      else if str_includes msg ''password'' \<and>
              (str_includes msg ''complexity'' \<or> str_includes msg ''length'' \<or>
               str_includes msg ''requirement'')
      then \<lparr>status = 400, scimType = Some ''invalidValue'', detail = stderr\<rparr>
      else if str_includes msg ''access'' \<and> str_includes msg ''denied''
      then \<lparr>status = 403, scimType = None, detail = stderr\<rparr>
      else if str_includes msg ''invalid'' \<or> str_includes msg ''bad request''
      then \<lparr>status = 400, scimType = Some ''invalidValue'', detail = stderr\<rparr>
      else \<lparr>status = 500, scimType = None, detail = stderr\<rparr>)"

text \<open>
  The classification table as the specification words it: an ordered list of rules, each
  a test on the lowercased message with the status and SCIM type it yields, read from
  the top with the first satisfied test winning, and 500 without a type when no test is
  satisfied.
\<close>

type_synonym classifier_rule = "(string \<Rightarrow> bool) \<times> int \<times> string option"

definition spec_rules :: "classifier_rule list" where
  "spec_rules =
     [(\<lambda>m. str_includes m ''already exists'' \<or> str_includes m ''already in use'',
         409, Some ''uniqueness''),
      (\<lambda>m. str_includes m ''cannot find an object with identity'' \<or> str_includes m ''not found'' \<or>
            str_includes m ''no such object'',
         404, Some ''noTarget''),
      (\<lambda>m. str_includes m ''password'' \<and>
            (str_includes m ''complexity'' \<or> str_includes m ''length'' \<or> str_includes m ''requirement''),
         400, Some ''invalidValue''),
      (\<lambda>m. str_includes m ''access'' \<and> str_includes m ''denied'', 403, None),
      (\<lambda>m. str_includes m ''invalid'' \<or> str_includes m ''bad request'', 400, Some ''invalidValue'')]"

fun first_rule :: "classifier_rule list \<Rightarrow> string \<Rightarrow> int \<times> string option" where
  "first_rule [] m = (500, None)"
| "first_rule ((test, st, ty) # rs) m = (if test m then (st, ty) else first_rule rs m)"

definition spec_classify :: "string \<Rightarrow> ScimErrorInfo" where
  "spec_classify stderr =
     (case first_rule spec_rules (toLowerCase stderr) of
        (st, ty) \<Rightarrow> \<lparr>status = st, scimType = ty, detail = stderr\<rparr>)"

section \<open>JSON values and objects\<close>

text \<open>
  The code handles SCIM resources, patch values and directory parameter sets as untyped
  dictionaries. A value is a JSON value, or \<open>undefined\<close>; numbers are integers. An
  object is the list of its members in property order, read by the first occurrence of
  a name, so that a list naming a key twice stands for the object of its first
  occurrences. Property names that the runtime's prototypes define (\<open>constructor\<close>,
  \<open>toString\<close>, \<open>__proto__\<close>, ...) are not treated specially, and array-index
  names keep their insertion position.
\<close>

datatype json =
    JUndef | JNull | JBool bool | JNum int | JStr string
  | JArr "json list" | JObj "(string \<times> json) list"

type_synonym jobject = "(string \<times> json) list"

text \<open>Exceptions the code can raise while it handles a request.\<close>

datatype exn = TypeError | SqliteConstraint

fun prop_lookup :: "(string \<times> 'v) list \<Rightarrow> string \<Rightarrow> 'v option" where
  "prop_lookup [] k = None"
| "prop_lookup ((k', v) # kvs) k = (if k' = k then Some v else prop_lookup kvs k)"

text \<open>\<open>o[k] = v\<close>: an existing member keeps its position, a new one goes last.\<close>

fun prop_set :: "(string \<times> 'v) list \<Rightarrow> string \<Rightarrow> 'v \<Rightarrow> (string \<times> 'v) list" where
  "prop_set [] k v = [(k, v)]"
| "prop_set ((k', v') # kvs) k v =
     (if k' = k then (k, v) # kvs else (k', v') # prop_set kvs k v)"

text \<open>\<open>delete o[k]\<close>.\<close>

definition prop_delete :: "(string \<times> 'v) list \<Rightarrow> string \<Rightarrow> (string \<times> 'v) list" where
  "prop_delete kvs k = filter (\<lambda>kv. fst kv \<noteq> k) kvs"

text \<open>\<open>Object.entries(o)\<close>: the members, each name once.\<close>

function own_entries :: "(string \<times> 'v) list \<Rightarrow> (string \<times> 'v) list" where
  "own_entries [] = []"
| "own_entries ((k, v) # kvs) = (k, v) # own_entries (prop_delete kvs k)"
  by pat_completeness auto
termination
  by (relation "measure length") (auto simp: prop_delete_def less_Suc_eq_le)

text \<open>Writing a list of members into an object, in order: \<open>Object.assign\<close>, spread.\<close>

definition assign_all :: "(string \<times> 'v) list \<Rightarrow> (string \<times> 'v) list \<Rightarrow> (string \<times> 'v) list" where
  "assign_all target es = foldl (\<lambda>acc kv. prop_set acc (fst kv) (snd kv)) target es"

definition obj_get :: "jobject \<Rightarrow> string \<Rightarrow> json" where
  "obj_get obj k = (case prop_lookup obj k of Some v \<Rightarrow> v | None \<Rightarrow> JUndef)"

fun truthy :: "json \<Rightarrow> bool" where
  "truthy JUndef = False"
| "truthy JNull = False"
| "truthy (JBool b) = b"
| "truthy (JNum n) = (n \<noteq> 0)"
| "truthy (JStr s) = (s \<noteq> [])"
| "truthy (JArr xs) = True"
| "truthy (JObj kvs) = True"

fun nullish :: "json \<Rightarrow> bool" where
  "nullish JUndef = True"
| "nullish JNull = True"
| "nullish v = False"

text \<open>
  \<open>v[k]\<close> for a name \<open>k\<close> that only an object can carry (\<open>givenName\<close>,
  \<open>primary\<close>, \<open>value\<close>, ...), on a value that is not null or undefined.
\<close>

fun member :: "json \<Rightarrow> string \<Rightarrow> json" where
  "member (JObj kvs) k = obj_get kvs k"
| "member v k = JUndef"

definition digit_char :: "nat \<Rightarrow> char" where
  "digit_char d = ''0123456789'' ! d"

function dec :: "nat \<Rightarrow> string" where
  "dec n = (if n < 10 then [digit_char n] else dec (n div 10) @ [digit_char (n mod 10)])"
  by pat_completeness auto
termination by (relation "measure id") auto

definition indexed :: "'v list \<Rightarrow> (string \<times> 'v) list" where
  "indexed xs = zip (map dec [0..<length xs]) xs"

text \<open>The own enumerable members of a value, as spread and \<open>Object.entries\<close> see them.\<close>

fun entries_of :: "json \<Rightarrow> jobject" where
  "entries_of (JObj kvs) = own_entries kvs"
| "entries_of (JArr xs) = indexed xs"
| "entries_of (JStr s) = indexed (map (\<lambda>c. JStr [c]) s)"
| "entries_of v = []"

text \<open>\<open>{ ...target, ...src }\<close> continues an object literal with the members of \<open>src\<close>.\<close>

definition spread_into :: "jobject \<Rightarrow> json \<Rightarrow> jobject" where
  "spread_into target src = assign_all target (entries_of src)"

text \<open>
  A JSON text is represented by the value it denotes. \<open>JSON_stringify\<close> gives the
  value that the text written by \<open>JSON.stringify\<close> denotes: members holding
  \<open>undefined\<close> are left out and \<open>undefined\<close> array elements become null.
  \<open>JSON.parse\<close> of such a text gives this value back.
\<close>

fun JSON_stringify :: "json \<Rightarrow> json" where
  "JSON_stringify (JArr xs) =
     JArr (map (\<lambda>x. if x = JUndef then JNull else JSON_stringify x) xs)"
| "JSON_stringify (JObj kvs) =
     JObj (filter (\<lambda>kv. snd kv \<noteq> JUndef)
             (own_entries (map (\<lambda>(k, v). (k, JSON_stringify v)) kvs)))"
| "JSON_stringify v = v"

definition stringify_object :: "jobject \<Rightarrow> jobject" where
  "stringify_object obj = (case JSON_stringify (JObj obj) of JObj kvs \<Rightarrow> kvs | _ \<Rightarrow> [])"

section \<open>Security helper (powershell.ts)\<close>

definition SENSITIVE_KEYS :: "string list" where
  "SENSITIVE_KEYS = [''accountpassword'', ''password'', ''secret'', ''token'']"

definition REDACTED :: json where
  "REDACTED = JStr ''***REDACTED***''"

definition sanitizeParams :: "jobject \<Rightarrow> jobject" where
  "sanitizeParams params =
     foldl (\<lambda>safe kv.
              prop_set safe (fst kv)
                (if toLowerCase (fst kv) \<in> set SENSITIVE_KEYS then REDACTED else snd kv))
       [] (own_entries params)"

section \<open>Attribute mapping (config/mapping.ts)\<close>

text \<open>
  \<open>userName.includes('@')\<close> on a truthy value: strings and arrays have the method,
  numbers, booleans and objects raise a TypeError.
\<close>

fun includes_at :: "json \<Rightarrow> exn + bool" where
  "includes_at (JStr s) = Inr (str_includes s ''@'')"
| "includes_at (JArr xs) = Inr (JStr ''@'' \<in> set xs)"
| "includes_at v = Inl TypeError"

text \<open>
  \<open>emails.find((e) => e['primary'] === true)\<close>: the callback reads a member of each
  element up to the first hit, which raises on a null element.
\<close>

fun find_primary :: "json list \<Rightarrow> exn + json option" where
  "find_primary [] = Inr None"
| "find_primary (e # es) =
     (if nullish e then Inl TypeError
      else if member e ''primary'' = JBool True then Inr (Some e)
      else find_primary es)"

text \<open>
  The e-mail value read from the \<open>emails\<close> member, \<open>undefined\<close> when the branch is
  not taken. A non-empty string has a positive length and no \<open>find\<close>; so has an object
  whose \<open>length\<close> member is a positive number (\<open>true\<close> counts as 1; the numeric
  reading of a string or array held there is not modelled and counts as not positive).
\<close>

fun email_of :: "json \<Rightarrow> exn + json" where
  "email_of (JArr []) = Inr JUndef"
| "email_of (JArr (x # xs)) =
     (case find_primary (x # xs) of
        Inl e \<Rightarrow> Inl e
      | Inr (Some p) \<Rightarrow> Inr (member p ''value'')
      | Inr None \<Rightarrow> Inr (member x ''value''))"
| "email_of (JStr s) = (if s \<noteq> [] then Inl TypeError else Inr JUndef)"
| "email_of (JObj kvs) =
     (case obj_get kvs ''length'' of
        JNum n \<Rightarrow> if n > 0 then Inl TypeError else Inr JUndef
      | JBool b \<Rightarrow> if b then Inl TypeError else Inr JUndef
      | _ \<Rightarrow> Inr JUndef)"
| "email_of v = Inr JUndef"

definition set_if_truthy :: "jobject \<Rightarrow> string \<Rightarrow> json \<Rightarrow> jobject" where
  "set_if_truthy params k v = (if truthy v then prop_set params k v else params)"

definition scimToAdParams :: "jobject \<Rightarrow> string option \<Rightarrow> exn + jobject" where
  "scimToAdParams scimUser baseOu =
     (let userName = obj_get scimUser ''userName'' in
      case (if truthy userName
            then (case includes_at userName of
                    Inl e \<Rightarrow> Inl e
                  | Inr at \<Rightarrow>
                      Inr (let p = prop_set [] ''SamAccountName'' userName
                           in if at then prop_set p ''UserPrincipalName'' userName else p))
            else Inr []) of
        Inl e \<Rightarrow> Inl e
      | Inr p1 \<Rightarrow>
          (let name = obj_get scimUser ''name'';
               givenName = (if nullish name then JUndef else member name ''givenName'');
               familyName = (if nullish name then JUndef else member name ''familyName'');
               p2 = set_if_truthy p1 ''GivenName'' givenName;
               p3 = set_if_truthy p2 ''Surname'' familyName
           in case email_of (obj_get scimUser ''emails'') of
                Inl e \<Rightarrow> Inl e
              | Inr emailValue \<Rightarrow>
                  (let p4 = set_if_truthy p3 ''EmailAddress'' emailValue;
                       p5 = set_if_truthy p4 ''DisplayName'' (obj_get scimUser ''displayName'');
                       p6 = (case obj_get scimUser ''active'' of
                               JBool b \<Rightarrow> prop_set p5 ''Enabled'' (JBool b)
                             | _ \<Rightarrow> p5);
                       p7 = set_if_truthy p6 ''EmployeeID'' (obj_get scimUser ''externalId'');
                       p8 = prop_set p7 ''Name''
                              (if nullish (obj_get p7 ''DisplayName'')
                               then obj_get p7 ''SamAccountName''
                               else obj_get p7 ''DisplayName'')
                   in Inr (case baseOu of
                             None \<Rightarrow> p8
                           | Some ou \<Rightarrow> if ou \<noteq> [] then prop_set p8 ''Path'' (JStr ou) else p8))))"

definition mergeAdIntoScim :: "jobject \<Rightarrow> jobject \<Rightarrow> jobject" where
  "mergeAdIntoScim existing adUser =
     (let m0 = spread_into [] (JObj existing);
          m1 = set_if_truthy m0 ''userName'' (obj_get adUser ''SamAccountName'');
          m2 = set_if_truthy m1 ''displayName'' (obj_get adUser ''DisplayName'');
          gn = obj_get adUser ''GivenName'';
          sn = obj_get adUser ''Surname'';
          m3 = (if truthy gn \<or> truthy sn
                then prop_set m2 ''name''
                       (JObj (let old = obj_get m2 ''name'';
                                  n0 = spread_into [] (if nullish old then JObj [] else old);
                                  n1 = set_if_truthy n0 ''givenName'' gn
                              in set_if_truthy n1 ''familyName'' sn))
                else m2);
          em = obj_get adUser ''EmailAddress'';
          m4 = (if truthy em
                then prop_set m3 ''emails''
                       (JArr [JObj [(''value'', em), (''type'', JStr ''work''),
                                    (''primary'', JBool True)]])
                else m3)
      in case obj_get adUser ''Enabled'' of
           JBool b \<Rightarrow> prop_set m4 ''active'' (JBool b)
         | _ \<Rightarrow> m4)"

text \<open>
  The mapped subset of a SCIM user, as the mapper reads it: userName, name.givenName,
  name.familyName, the e-mail value of the primary (else first) entry, displayName,
  active and externalId.
\<close>

definition mapped_subset ::
  "jobject \<Rightarrow> json \<times> json \<times> json \<times> (exn + json) \<times> json \<times> json \<times> json" where
  "mapped_subset u =
     (let name = obj_get u ''name'' in
      (obj_get u ''userName'',
       (if nullish name then JUndef else member name ''givenName''),
       (if nullish name then JUndef else member name ''familyName''),
       email_of (obj_get u ''emails''),
       obj_get u ''displayName'',
       obj_get u ''active'',
       obj_get u ''externalId''))"

section \<open>External-command execution and audit (powershell.ts)\<close>

text \<open>
  What the directory tool does is outside the program: the result that
  \<open>executePowerShell\<close> returns for a run (exit code, stderr, parsed output) is a
  parameter of every operation below, and the script text handed to the tool is not
  modelled. What is modelled is what the layer does around the run: the type errors of
  building the script, and the audit row written for the run (a write the code does not
  wait for; the model takes it as done).
\<close>

record PowerShellResult =
  stdout :: string
  stderr :: string
  exitCode :: int
  durationMs :: int
  parsed :: json

record LogMeta =
  cmdlet :: string
  params :: jobject
  scimUserId :: "string option"

record AuditRow =
  audit_cmdlet :: string
  parameters :: json
  audit_stdout :: string
  audit_stderr :: string
  exit_code :: int
  duration_ms :: int
  scim_user_id :: "string option"

datatype SyncStatus = Synced | Pending | Error

text \<open>
  A row of \<open>scim_users\<close>. The column \<open>scim_resource\<close> holds the JSON text of an
  object (every writer serialises an object literal), \<open>ad_resource\<close> the JSON text of
  the last read-back.
\<close>

record ScimUserRow =
  row_id :: string
  ad_object_guid :: "string option"
  sam_account_name :: "string option"
  scim_resource :: jobject
  ad_resource :: "json option"
  sync_status :: SyncStatus
  last_error :: "string option"
  created_at :: string
  updated_at :: string

record db =
  scim_users :: "ScimUserRow list"
  powershell_executions :: "AuditRow list"

definition audit_row :: "LogMeta \<Rightarrow> PowerShellResult \<Rightarrow> AuditRow" where
  "audit_row logMeta res =
     \<lparr>audit_cmdlet = cmdlet logMeta,
      parameters = JSON_stringify (JObj (sanitizeParams (params logMeta))),
      audit_stdout = substring0 65535 (stdout res),
      audit_stderr = substring0 65535 (stderr res),
      exit_code = exitCode res,
      duration_ms = durationMs res,
      scim_user_id = scimUserId logMeta\<rparr>"

definition executePowerShell ::
  "LogMeta \<Rightarrow> PowerShellResult \<Rightarrow> db \<Rightarrow> PowerShellResult \<times> db" where
  "executePowerShell logMeta res s =
     (res, s\<lparr>powershell_executions := powershell_executions s @ [audit_row logMeta res]\<rparr>)"

text \<open>\<open>esc(value)\<close> calls \<open>value.replace\<close>, which only a string has.\<close>

fun esc_raises :: "json \<Rightarrow> bool" where
  "esc_raises (JStr s) = False"
| "esc_raises v = True"

definition execNewAdUser ::
  "jobject \<Rightarrow> string \<Rightarrow> PowerShellResult \<Rightarrow> db \<Rightarrow> exn + PowerShellResult \<times> db" where
  "execNewAdUser ps userId res s =
     (let AccountPassword = obj_get ps ''AccountPassword'';
          Name = obj_get ps ''Name'';
          Path = obj_get ps ''Path'';
          SamAccountName = obj_get ps ''SamAccountName'';
          rest = prop_delete (prop_delete (prop_delete (prop_delete (own_entries ps)
                   ''AccountPassword'') ''Name'') ''Path'') ''SamAccountName'';
          cn = (if nullish Name then (if nullish SamAccountName then JStr [] else SamAccountName)
                else Name)
      in if esc_raises AccountPassword \<or> esc_raises cn \<or>
            (truthy SamAccountName \<and> esc_raises SamAccountName) \<or>
            (truthy Path \<and> esc_raises Path)
         then Inl TypeError
         else Inr (executePowerShell
                \<lparr>cmdlet = ''New-ADUser'',
                 params = sanitizeParams
                   (spread_into [(''Name'', Name), (''Path'', Path),
                                 (''SamAccountName'', SamAccountName)] (JObj rest)),
                 scimUserId = Some userId\<rparr> res s))"

definition execSetAdUser ::
  "string \<Rightarrow> jobject \<Rightarrow> string \<Rightarrow> PowerShellResult \<Rightarrow> db \<Rightarrow> PowerShellResult \<times> db" where
  "execSetAdUser identity ps userId res s =
     executePowerShell
       \<lparr>cmdlet = ''Set-ADUser'',
        params = spread_into [(''identity'', JStr identity)] (JObj ps),
        scimUserId = Some userId\<rparr> res s"

definition execRemoveAdUser ::
  "string \<Rightarrow> string \<Rightarrow> PowerShellResult \<Rightarrow> db \<Rightarrow> PowerShellResult \<times> db" where
  "execRemoveAdUser identity userId res s =
     executePowerShell
       \<lparr>cmdlet = ''Remove-ADUser'', params = [(''identity'', JStr identity)],
        scimUserId = Some userId\<rparr> res s"

definition execGetAdUser ::
  "string \<Rightarrow> string option \<Rightarrow> PowerShellResult \<Rightarrow> db \<Rightarrow> json option \<times> db" where
  "execGetAdUser identity userId res s =
     (case executePowerShell
             \<lparr>cmdlet = ''Get-ADUser'', params = [(''identity'', JStr identity)],
              scimUserId = userId\<rparr> res s of
        (result, s') \<Rightarrow>
          (if exitCode result \<noteq> 0 \<or> \<not> truthy (parsed result) then None
           else Some (parsed result), s'))"

fun extractObjectGuid :: "json \<Rightarrow> string option" where
  "extractObjectGuid (JObj obj) =
     (case obj_get obj ''ObjectGUID'' of
        JStr raw \<Rightarrow> if raw \<noteq> [] then Some raw else None
      | JObj wrapped \<Rightarrow> (case obj_get wrapped ''value'' of JStr g \<Rightarrow> Some g | _ \<Rightarrow> None)
      | _ \<Rightarrow> None)"
| "extractObjectGuid v = None"

section \<open>Cache store (the scim\_users table)\<close>

text \<open>
  The table keeps its rows in insertion order. \<open>id\<close> is the primary key and
  \<open>sam_account_name\<close> is unique among the rows where it is not null; a write that
  breaks either raises. Storage failures other than these are not modelled.
\<close>

definition find_by_id :: "string \<Rightarrow> db \<Rightarrow> ScimUserRow option" where
  "find_by_id i s = find (\<lambda>r. row_id r = i) (scim_users s)"

definition find_by_sam :: "string \<Rightarrow> db \<Rightarrow> ScimUserRow option" where
  "find_by_sam sam s = find (\<lambda>r. sam_account_name r = Some sam) (scim_users s)"

definition db_insert :: "ScimUserRow \<Rightarrow> db \<Rightarrow> exn + db" where
  "db_insert row s =
     (if list_ex (\<lambda>r. row_id r = row_id row \<or>
                       (sam_account_name row \<noteq> None \<and>
                        sam_account_name r = sam_account_name row)) (scim_users s)
      then Inl SqliteConstraint
      else Inr (s\<lparr>scim_users := scim_users s @ [row]\<rparr>))"

definition update_where_id ::
  "string \<Rightarrow> (ScimUserRow \<Rightarrow> ScimUserRow) \<Rightarrow> ScimUserRow list \<Rightarrow> ScimUserRow list" where
  "update_where_id i upd rows = map (\<lambda>r. if row_id r = i then upd r else r) rows"

definition db_update :: "string \<Rightarrow> (ScimUserRow \<Rightarrow> ScimUserRow) \<Rightarrow> db \<Rightarrow> db" where
  "db_update i upd s = s\<lparr>scim_users := update_where_id i upd (scim_users s)\<rparr>"

text \<open>An update that also writes \<open>sam_account_name\<close> can collide with another row.\<close>

definition db_update_sam ::
  "string \<Rightarrow> string option \<Rightarrow> (ScimUserRow \<Rightarrow> ScimUserRow) \<Rightarrow> db \<Rightarrow> exn + db" where
  "db_update_sam i sam upd s =
     (if sam \<noteq> None \<and>
         list_ex (\<lambda>r. row_id r \<noteq> i \<and> sam_account_name r = sam) (scim_users s)
      then Inl SqliteConstraint
      else Inr (db_update i (\<lambda>r. (upd r)\<lparr>sam_account_name := sam\<rparr>) s))"

definition db_delete :: "string \<Rightarrow> db \<Rightarrow> db" where
  "db_delete i s = s\<lparr>scim_users := filter (\<lambda>r. row_id r \<noteq> i) (scim_users s)\<rparr>"

section \<open>Response formatter (scim/formatter.ts)\<close>

definition SCIM_SCHEMA_USER :: string where
  "SCIM_SCHEMA_USER = ''urn:ietf:params:scim:schemas:core:2.0:User''"

definition SCIM_SCHEMA_LIST :: string where
  "SCIM_SCHEMA_LIST = ''urn:ietf:params:scim:api:messages:2.0:ListResponse''"

definition SCIM_SCHEMA_ERROR :: string where
  "SCIM_SCHEMA_ERROR = ''urn:ietf:params:scim:api:messages:2.0:Error''"

definition or_undefined :: "json \<Rightarrow> json" where
  "or_undefined v = (if nullish v then JUndef else v)"

definition formatScimUser :: "ScimUserRow \<Rightarrow> string \<Rightarrow> json" where
  "formatScimUser row baseUrl =
     (let cached = scim_resource row in
      JObj [(''schemas'', JArr [JStr SCIM_SCHEMA_USER]),
            (''id'', JStr (row_id row)),
            (''externalId'', or_undefined (obj_get cached ''externalId'')),
            (''userName'',
               (if nullish (obj_get cached ''userName'')
                then (case sam_account_name row of Some sam \<Rightarrow> JStr sam | None \<Rightarrow> JStr [])
                else obj_get cached ''userName'')),
            (''name'', or_undefined (obj_get cached ''name'')),
            (''displayName'', or_undefined (obj_get cached ''displayName'')),
            (''emails'', or_undefined (obj_get cached ''emails'')),
            (''active'', or_undefined (obj_get cached ''active'')),
            (''meta'', JObj [(''resourceType'', JStr ''User''),
                             (''created'', JStr (created_at row)),
                             (''lastModified'', JStr (updated_at row)),
                             (''location'',
                                JStr (baseUrl @ ''/scim/v2/Users/'' @ row_id row))])])"

definition formatListResponse :: "json list \<Rightarrow> int \<Rightarrow> int \<Rightarrow> json" where
  "formatListResponse users totalResults startIndex =
     JObj [(''schemas'', JArr [JStr SCIM_SCHEMA_LIST]),
           (''totalResults'', JNum totalResults),
           (''startIndex'', JNum startIndex),
           (''itemsPerPage'', JNum (int (length users))),
           (''Resources'', JArr users)]"

definition formatError :: "int \<Rightarrow> string \<Rightarrow> string option \<Rightarrow> json" where
  "formatError st det ty =
     JObj ([(''schemas'', JArr [JStr SCIM_SCHEMA_ERROR]), (''status'', JNum st)] @
           (case ty of
              Some t \<Rightarrow> if t \<noteq> [] then [(''scimType'', JStr t)] else []
            | None \<Rightarrow> []) @
           [(''detail'', JStr det)])"

text \<open>
  Two parameter maps that differ only in the values of sensitive keys: the same keys in
  the same order, and the same value wherever the key is not sensitive.
\<close>

definition differ_only_in_sensitive :: "jobject \<Rightarrow> jobject \<Rightarrow> bool" where
  "differ_only_in_sensitive p1 p2 =
     list_all2 (\<lambda>a b. fst a = fst b \<and>
                       (toLowerCase (fst a) \<in> set SENSITIVE_KEYS \<or> snd a = snd b)) p1 p2"

section \<open>Filter parser (scim/filter-parser.ts)\<close>

record ParsedFilter =
  attribute :: string
  operator :: string
  filter_value :: string
  dbColumn :: string

definition ATTRIBUTE_TO_COLUMN :: "(string \<times> string) list" where
  "ATTRIBUTE_TO_COLUMN =
     [(''id'', ''id''), (''externalid'', ''id''), (''username'', ''sam_account_name'')]"

definition FILTER_OPERATORS :: "string list" where
  "FILTER_OPERATORS =
     [''eq'', ''ne'', ''co'', ''sw'', ''ew'', ''pr'', ''gt'', ''ge'', ''lt'', ''le'']"

definition dquote :: char where
  "dquote = CHR 0x22"

text \<open>
  \<open>FILTER_RE\<close> is \<open>^(\S+)\s+(eq|ne|...|le)\s+"([^"]*)"$\<close>, case-insensitive. Its
  pieces cannot overlap, so a match is read off from the left: the longest run of
  non-space characters, white space, two operator letters, white space, a double
  quote, the characters up to the next double quote, and that quote ends the input.
\<close>

definition parseScimFilter :: "string \<Rightarrow> ParsedFilter option" where
  "parseScimFilter flt =
     (let t = trim flt;
          attr = takeWhile (\<lambda>c. \<not> is_space c) t;
          r1 = dropWhile (\<lambda>c. \<not> is_space c) t;
          r2 = dropWhile is_space r1;
          operatorRaw = take 2 r2;
          r3 = drop 2 r2;
          r4 = dropWhile is_space r3
      in if attr = [] \<or> r1 = r2 \<or> toLowerCase operatorRaw \<notin> set FILTER_OPERATORS \<or> r3 = r4
         then None
         else (case r4 of
                 [] \<Rightarrow> None
               | q # r5 \<Rightarrow>
                   if q \<noteq> dquote \<or> dropWhile (\<lambda>c. c \<noteq> dquote) r5 \<noteq> [dquote] then None
                   else (case prop_lookup ATTRIBUTE_TO_COLUMN (toLowerCase attr) of
                           None \<Rightarrow> None
                         | Some col \<Rightarrow>
                             Some \<lparr>attribute = attr,
                                   operator = toLowerCase operatorRaw,
                                   filter_value = takeWhile (\<lambda>c. c \<noteq> dquote) r5,
                                   dbColumn = col\<rparr>)))"

section \<open>Request processor (routes/scim/users.ts)\<close>

text \<open>
  The surroundings of one request: the configuration, the value \<open>uuidv4()\<close> returns,
  the values of the successive calls of \<open>now()\<close>, and the base URL of the request.
\<close>

record env =
  baseOu :: string
  defaultPassword :: string
  uuidv4 :: string
  now :: "nat \<Rightarrow> string"
  baseUrl :: string

text \<open>
  What the handler sends: a status, the headers it sets and a body; or an exception
  that leaves the handler (the framework answers it with a 500 of its own).
\<close>

datatype reply = Reply int "(string \<times> string) list" json | Threw exn

definition scim_json :: "(string \<times> string) list" where
  "scim_json = [(''Content-Type'', ''application/scim+json'')]"

definition send_error :: "int \<Rightarrow> string \<Rightarrow> string option \<Rightarrow> reply" where
  "send_error st det ty = Reply st [] (formatError st det ty)"

definition send_classified :: "string \<Rightarrow> reply" where
  "send_classified err =
     (let m = mapPsErrorToScim err in send_error (status m) (detail m) (scimType m))"

definition not_found :: "string \<Rightarrow> reply" where
  "not_found i = send_error 404 (''User '' @ i @ '' not found.'') (Some ''noTarget'')"

definition no_identity :: reply where
  "no_identity =
     send_error 500 ''Cannot identify AD account: no objectGUID or samAccountName.'' None"

text \<open>\<open>userName.split('@')[0].substring(0, 20)\<close>.\<close>

definition sam_of :: "string \<Rightarrow> string" where
  "sam_of userName =
     substring0 20 (case split_on CHR ''@'' userName of [] \<Rightarrow> [] | p # ps \<Rightarrow> p)"

text \<open>\<open>row.ad_object_guid ?? row.sam_account_name\<close>, and whether it is truthy.\<close>

definition identity_of :: "ScimUserRow \<Rightarrow> string option" where
  "identity_of row =
     (case ad_object_guid row of Some g \<Rightarrow> Some g | None \<Rightarrow> sam_account_name row)"

definition refreshAdResource ::
  "string \<Rightarrow> string \<Rightarrow> PowerShellResult \<Rightarrow> string \<Rightarrow> db \<Rightarrow> db" where
  "refreshAdResource identity userId res ts s =
     (case execGetAdUser identity (Some userId) res s of
        (None, s1) \<Rightarrow> s1
      | (Some adUser, s1) \<Rightarrow>
          db_update userId
            (\<lambda>r. r\<lparr>ad_resource := Some (JSON_stringify adUser), updated_at := ts\<rparr>) s1)"

definition send_row :: "int \<Rightarrow> (string \<times> string) list \<Rightarrow> string \<Rightarrow> env \<Rightarrow> db \<Rightarrow> reply" where
  "send_row st hdrs i e s =
     (case find_by_id i s of
        None \<Rightarrow> Threw TypeError
      | Some row \<Rightarrow> Reply st hdrs (formatScimUser row (baseUrl e)))"

subsection \<open>GET /Users\<close>

text \<open>
  \<open>startIndex\<close> and \<open>count\<close> are the numbers \<open>parseInt\<close> read from the query
  (its defaults 1 and 100 included); a query value that is not a number is not
  modelled.
\<close>

definition column_value :: "string \<Rightarrow> ScimUserRow \<Rightarrow> string option" where
  "column_value col r =
     (if col = ''id'' then Some (row_id r)
      else if col = ''sam_account_name'' then sam_account_name r
      else None)"

definition list_predicate :: "string option \<Rightarrow> ScimUserRow \<Rightarrow> bool" where
  "list_predicate flt =
     (case flt of
        None \<Rightarrow> (\<lambda>r. True)
      | Some f \<Rightarrow>
          if f = [] then (\<lambda>r. True)
          else (case parseScimFilter f of
                  None \<Rightarrow> (\<lambda>r. True)
                | Some p \<Rightarrow>
                    if operator p = ''eq''
                    then (\<lambda>r. column_value (dbColumn p) r = Some (filter_value p))
                    else (\<lambda>r. True)))"

definition list_users :: "env \<Rightarrow> string option \<Rightarrow> int \<Rightarrow> int \<Rightarrow> db \<Rightarrow> reply \<times> db" where
  "list_users e flt startIndexParam countParam s =
     (let startIndex = max 1 startIndexParam;
          pageSize = min 200 (max 1 countParam);
          selected = filter (list_predicate flt) (scim_users s);
          total = int (length selected);
          rows = take (nat pageSize) (drop (nat (startIndex - 1)) (sort_key created_at selected));
          users = map (\<lambda>row. formatScimUser row (baseUrl e)) rows
      in (Reply 200 scim_json (formatListResponse users total startIndex), s))"

subsection \<open>POST /Users\<close>

text \<open>
  \<open>psNew\<close> and \<open>psGet\<close> are the results of the New-ADUser run and of the Get-ADUser
  read-back. \<open>externalId\<close> is declared \<open>string | undefined\<close>: a member of another
  JSON type is read as absent.
\<close>

definition new_user_id :: "env \<Rightarrow> jobject \<Rightarrow> string" where
  "new_user_id e scimUser =
     (case obj_get scimUser ''externalId'' of JStr x \<Rightarrow> x | _ \<Rightarrow> uuidv4 e)"

text \<open>The block "Persist objectGUID" and the read-back, after a run that exited with 0.\<close>

definition post_persist ::
  "env \<Rightarrow> jobject \<Rightarrow> string \<Rightarrow> string \<Rightarrow> PowerShellResult \<Rightarrow> PowerShellResult \<Rightarrow> db \<Rightarrow>
   reply \<times> db" where
  "post_persist e scimUser u userId psResult psGet s1 =
     (let objectGuid = extractObjectGuid (parsed psResult);
          ts = now e 0;
          scimResource = prop_set (spread_into [] (JObj scimUser)) ''id'' (JStr userId)
      in case db_insert
                \<lparr>row_id = userId,
                 ad_object_guid = objectGuid,
                 sam_account_name = Some (sam_of u),
                 scim_resource = stringify_object scimResource,
                 ad_resource = None,
                 sync_status = Synced,
                 last_error = None,
                 created_at = ts,
                 updated_at = ts\<rparr> s1 of
           Inl x \<Rightarrow> (Threw x, s1)
         | Inr s2 \<Rightarrow>
             (let s3 = (case objectGuid of
                          None \<Rightarrow> s2
                        | Some g \<Rightarrow>
                            if g \<noteq> [] then refreshAdResource g userId psGet (now e 1) s2
                            else s2)
              in (send_row 201
                    ((''Location'', baseUrl e @ ''/scim/v2/Users/'' @ userId) # scim_json)
                    userId e s3, s3)))"

text \<open>The block "Execute New-ADUser" and what follows it.\<close>

definition post_create ::
  "env \<Rightarrow> jobject \<Rightarrow> string \<Rightarrow> PowerShellResult \<Rightarrow> PowerShellResult \<Rightarrow> db \<Rightarrow> reply \<times> db" where
  "post_create e scimUser u psNew psGet s =
     (let userId = new_user_id e scimUser in
      case scimToAdParams scimUser (Some (baseOu e)) of
        Inl x \<Rightarrow> (Threw x, s)
      | Inr adParams \<Rightarrow>
          (case execNewAdUser
                  (prop_set (spread_into [] (JObj adParams)) ''AccountPassword''
                     (JStr (defaultPassword e)))
                  userId psNew s of
             Inl x \<Rightarrow> (Threw x, s)
           | Inr (psResult, s1) \<Rightarrow>
               if exitCode psResult \<noteq> 0
               then (send_classified (stderr psResult), s1)
               else post_persist e scimUser u userId psResult psGet s1))"

definition post_users ::
  "env \<Rightarrow> jobject \<Rightarrow> PowerShellResult \<Rightarrow> PowerShellResult \<Rightarrow> db \<Rightarrow> reply \<times> db" where
  "post_users e scimUser psNew psGet s =
     (let userName = obj_get scimUser ''userName'' in
      if \<not> truthy userName
      then (send_error 400 ''userName is required.'' (Some ''invalidValue''), s)
      else (case userName of
              JStr u \<Rightarrow>
                (case find_by_sam (sam_of u) s of
                   Some duplicate \<Rightarrow>
                     (send_error 409
                        (''A user with userName '' @ [CHR 0x27] @ u @ [CHR 0x27] @
                         '' already exists.'')
                        (Some ''uniqueness''), s)
                 | None \<Rightarrow> post_create e scimUser u psNew psGet s)
            | _ \<Rightarrow> (Threw TypeError, s)))"

subsection \<open>PUT /Users/:id\<close>

text \<open>
  The Set-ADUser run and what follows it, as replace and patch both have it: on a
  nonzero exit the row goes to \<open>error\<close> with the stderr cut to 2000 characters,
  otherwise to \<open>synced\<close> with \<open>last_error\<close> cleared, and the read-back follows.
\<close>

definition mark_error :: "string \<Rightarrow> string \<Rightarrow> string \<Rightarrow> db \<Rightarrow> db" where
  "mark_error i err ts s =
     db_update i
       (\<lambda>r. r\<lparr>sync_status := Error, last_error := Some (substring0 2000 err),
               updated_at := ts\<rparr>) s"

definition mark_synced :: "string \<Rightarrow> string \<Rightarrow> db \<Rightarrow> db" where
  "mark_synced i ts s =
     db_update i (\<lambda>r. r\<lparr>sync_status := Synced, last_error := None, updated_at := ts\<rparr>) s"

definition finish_synced ::
  "env \<Rightarrow> string \<Rightarrow> string \<Rightarrow> PowerShellResult \<Rightarrow> db \<Rightarrow> reply \<times> db" where
  "finish_synced e i identity psGet s =
     (let s1 = mark_synced i (now e 1) s;
          s2 = refreshAdResource identity i psGet (now e 2) s1
      in (send_row 200 scim_json i e s2, s2))"

definition set_ad_user ::
  "env \<Rightarrow> string \<Rightarrow> string \<Rightarrow> jobject \<Rightarrow> PowerShellResult \<Rightarrow> PowerShellResult \<Rightarrow> db \<Rightarrow>
   reply \<times> db" where
  "set_ad_user e i identity setParams psSet psGet s =
     (case execSetAdUser identity setParams i psSet s of
        (psResult, s1) \<Rightarrow>
          if exitCode psResult \<noteq> 0
          then (send_classified (stderr psResult), mark_error i (stderr psResult) (now e 1) s1)
          else finish_synced e i identity psGet s1)"

definition strip_name_path :: "jobject \<Rightarrow> jobject" where
  "strip_name_path adParams = prop_delete (prop_delete (own_entries adParams) ''Name'') ''Path''"

text \<open>The block "Persist the new SCIM state" of replace.\<close>

definition put_sam_account_name :: "ScimUserRow \<Rightarrow> jobject \<Rightarrow> exn + string option" where
  "put_sam_account_name row scimUser =
     (let userName = obj_get scimUser ''userName'' in
      if truthy userName
      then (case userName of
              JStr u \<Rightarrow> Inr (Some (sam_of u))
            | _ \<Rightarrow> Inl TypeError)
      else Inr (sam_account_name row))"

definition put_persist :: "env \<Rightarrow> string \<Rightarrow> ScimUserRow \<Rightarrow> jobject \<Rightarrow> db \<Rightarrow> exn + db" where
  "put_persist e i row scimUser s =
     (let scimResource = prop_set (spread_into [] (JObj scimUser)) ''id'' (JStr i) in
      case put_sam_account_name row scimUser of
        Inl x \<Rightarrow> Inl x
      | Inr sam \<Rightarrow>
          db_update_sam i sam
            (\<lambda>r. r\<lparr>scim_resource := stringify_object scimResource,
                    sync_status := Pending,
                    updated_at := now e 0\<rparr>) s)"

text \<open>The block "Execute Set-ADUser" of replace.\<close>

definition put_sync ::
  "env \<Rightarrow> string \<Rightarrow> ScimUserRow \<Rightarrow> jobject \<Rightarrow> PowerShellResult \<Rightarrow> PowerShellResult \<Rightarrow> db \<Rightarrow>
   reply \<times> db" where
  "put_sync e i row scimUser psSet psGet s =
     (case identity_of row of
        None \<Rightarrow> (no_identity, s)
      | Some identity \<Rightarrow>
          if identity = [] then (no_identity, s)
          else (case scimToAdParams scimUser None of
                  Inl x \<Rightarrow> (Threw x, s)
                | Inr adParams \<Rightarrow>
                    set_ad_user e i identity (strip_name_path adParams) psSet psGet s))"

definition put_users ::
  "env \<Rightarrow> string \<Rightarrow> jobject \<Rightarrow> PowerShellResult \<Rightarrow> PowerShellResult \<Rightarrow> db \<Rightarrow> reply \<times> db" where
  "put_users e i scimUser psSet psGet s =
     (case find_by_id i s of
        None \<Rightarrow> (not_found i, s)
      | Some row \<Rightarrow>
          (case put_persist e i row scimUser s of
             Inl x \<Rightarrow> (Threw x, s)
           | Inr s1 \<Rightarrow> put_sync e i row scimUser psSet psGet s1))"

subsection \<open>DELETE /Users/:id\<close>

definition delete_users :: "env \<Rightarrow> string \<Rightarrow> PowerShellResult \<Rightarrow> db \<Rightarrow> reply \<times> db" where
  "delete_users e i psRemove s =
     (case find_by_id i s of
        None \<Rightarrow> (not_found i, s)
      | Some row \<Rightarrow>
          (case (case identity_of row of
                   None \<Rightarrow> None
                 | Some identity \<Rightarrow> if identity = [] then None else Some identity) of
             None \<Rightarrow> (Reply 204 [] JUndef, db_delete i s)
           | Some identity \<Rightarrow>
               (case execRemoveAdUser identity i psRemove s of
                  (psResult, s1) \<Rightarrow>
                    if exitCode psResult \<noteq> 0 \<and>
                       \<not> (str_includes (toLowerCase (stderr psResult)) ''cannot find'' \<or>
                          str_includes (toLowerCase (stderr psResult)) ''not found'')
                    then (send_classified (stderr psResult), s1)
                    else (Reply 204 [] JUndef, db_delete i s1))))"

section \<open>Patch applier (scim/patch-applier.ts)\<close>

text \<open>
  The applier assigns to properties of objects and arrays that the updated resource,
  the original resource and the operation values can share. Objects and arrays
  therefore live in a store: a value is a primitive or a reference to a cell, a cell is
  an object or an array, and an assignment replaces the cell at its address. A new
  object or array is a new cell at the end of the store.
\<close>

type_synonym addr = nat

datatype val = VUndef | VNull | VBool bool | VNum int | VStr string | VRef addr

datatype cell = Obj "(string \<times> val) list" | Arr "val list"

type_synonym heap = "cell list"

record PatchOperation =
  opName :: string
  opPath :: "string option"
  opValue :: val

definition cell_at :: "heap \<Rightarrow> addr \<Rightarrow> cell option" where
  "cell_at h a = (if a < length h then Some (h ! a) else None)"

definition new_cell :: "cell \<Rightarrow> heap \<Rightarrow> addr \<times> heap" where
  "new_cell c h = (length h, h @ [c])"

fun v_truthy :: "val \<Rightarrow> bool" where
  "v_truthy VUndef = False"
| "v_truthy VNull = False"
| "v_truthy (VBool b) = b"
| "v_truthy (VNum n) = (n \<noteq> 0)"
| "v_truthy (VStr s) = (s \<noteq> [])"
| "v_truthy (VRef a) = True"

fun v_nullish :: "val \<Rightarrow> bool" where
  "v_nullish VUndef = True"
| "v_nullish VNull = True"
| "v_nullish v = False"

text \<open>A property name that is an array index: decimal digits without a leading zero.\<close>

definition is_digit :: "char \<Rightarrow> bool" where
  "is_digit c = (let n = (of_char c :: nat) in 48 \<le> n \<and> n \<le> 57)"

definition index_of_key :: "string \<Rightarrow> nat option" where
  "index_of_key k =
     (if k \<noteq> [] \<and> list_all is_digit k \<and> (k = ''0'' \<or> hd k \<noteq> CHR ''0'')
      then Some (foldl (\<lambda>n c. 10 * n + (of_char c - 48)) 0 k)
      else None)"

definition seq_member :: "val list \<Rightarrow> string \<Rightarrow> val" where
  "seq_member xs k =
     (if k = ''length'' then VNum (int (length xs))
      else (case index_of_key k of
              None \<Rightarrow> VUndef
            | Some i \<Rightarrow> if i < length xs then xs ! i else VUndef))"

text \<open>\<open>v[k]\<close>: own members of objects, elements and length of arrays and strings.\<close>

definition get_member :: "heap \<Rightarrow> val \<Rightarrow> string \<Rightarrow> exn + val" where
  "get_member h v k =
     (case v of
        VUndef \<Rightarrow> Inl TypeError
      | VNull \<Rightarrow> Inl TypeError
      | VStr s \<Rightarrow> Inr (seq_member (map (\<lambda>c. VStr [c]) s) k)
      | VRef a \<Rightarrow>
          (case cell_at h a of
             Some (Obj kvs) \<Rightarrow> Inr (case prop_lookup kvs k of Some x \<Rightarrow> x | None \<Rightarrow> VUndef)
           | Some (Arr xs) \<Rightarrow> Inr (seq_member xs k)
           | None \<Rightarrow> Inr VUndef)
      | _ \<Rightarrow> Inr VUndef)"

text \<open>
  \<open>recv[k] = x\<close>. The module is strict code, where assigning to a property of a
  primitive raises. An array takes index names (growing with holes); other names
  written to an array are not carried by the model's arrays and leave the store as it
  is.
\<close>

definition set_member :: "heap \<Rightarrow> val \<Rightarrow> string \<Rightarrow> val \<Rightarrow> exn + heap" where
  "set_member h recv k x =
     (case recv of
        VRef a \<Rightarrow>
          (case cell_at h a of
             Some (Obj kvs) \<Rightarrow> Inr (h[a := Obj (prop_set kvs k x)])
           | Some (Arr xs) \<Rightarrow>
               (case index_of_key k of
                  None \<Rightarrow> Inr h
                | Some i \<Rightarrow>
                    Inr (h[a := Arr (if i < length xs then xs[i := x]
                                     else xs @ replicate (i - length xs) VUndef @ [x])]))
           | None \<Rightarrow> Inr h)
      | _ \<Rightarrow> Inl TypeError)"

text \<open>
  \<open>delete recv[k]\<close>: an array element becomes a hole; the length and the characters
  of a string cannot be deleted.
\<close>

definition delete_member :: "heap \<Rightarrow> val \<Rightarrow> string \<Rightarrow> exn + heap" where
  "delete_member h recv k =
     (case recv of
        VUndef \<Rightarrow> Inl TypeError
      | VNull \<Rightarrow> Inl TypeError
      | VStr s \<Rightarrow>
          (if k = ''length'' \<or> (case index_of_key k of None \<Rightarrow> False | Some i \<Rightarrow> i < length s)
           then Inl TypeError else Inr h)
      | VRef a \<Rightarrow>
          (case cell_at h a of
             Some (Obj kvs) \<Rightarrow> Inr (h[a := Obj (prop_delete kvs k)])
           | Some (Arr xs) \<Rightarrow>
               (case index_of_key k of
                  None \<Rightarrow> (if k = ''length'' then Inl TypeError else Inr h)
                | Some i \<Rightarrow> Inr (if i < length xs then h[a := Arr (xs[i := VUndef])] else h))
           | None \<Rightarrow> Inr h)
      | _ \<Rightarrow> Inr h)"

text \<open>The own enumerable members of a value in the store.\<close>

definition v_entries :: "heap \<Rightarrow> val \<Rightarrow> (string \<times> val) list" where
  "v_entries h v =
     (case v of
        VStr s \<Rightarrow> indexed (map (\<lambda>c. VStr [c]) s)
      | VRef a \<Rightarrow>
          (case cell_at h a of
             Some (Obj kvs) \<Rightarrow> own_entries kvs
           | Some (Arr xs) \<Rightarrow> indexed xs
           | None \<Rightarrow> [])
      | _ \<Rightarrow> [])"

text \<open>Reading, writing and deleting a member of the plain object at an address.\<close>

definition obj_fields :: "heap \<Rightarrow> addr \<Rightarrow> (string \<times> val) list" where
  "obj_fields h a = (case cell_at h a of Some (Obj kvs) \<Rightarrow> kvs | _ \<Rightarrow> [])"

definition obj_read :: "heap \<Rightarrow> addr \<Rightarrow> string \<Rightarrow> val" where
  "obj_read h a k = (case prop_lookup (obj_fields h a) k of Some x \<Rightarrow> x | None \<Rightarrow> VUndef)"

definition obj_write :: "heap \<Rightarrow> addr \<Rightarrow> string \<Rightarrow> val \<Rightarrow> heap" where
  "obj_write h a k x = h[a := Obj (prop_set (obj_fields h a) k x)]"

definition obj_remove :: "heap \<Rightarrow> addr \<Rightarrow> string \<Rightarrow> heap" where
  "obj_remove h a k = h[a := Obj (prop_delete (obj_fields h a) k)]"

text \<open>
  \<open>String(v)\<close>. An array joins the strings of its elements with commas, null and
  undefined elements giving the empty string; the first argument bounds the nesting
  that is followed (the number of cells suffices for a store without cycles).
\<close>

definition int_dec :: "int \<Rightarrow> string" where
  "int_dec i = (if i < 0 then CHR ''-'' # dec (nat (- i)) else dec (nat i))"

fun join_comma :: "string list \<Rightarrow> string" where
  "join_comma [] = []"
| "join_comma [s] = s"
| "join_comma (s # t # ss) = s @ '','' @ join_comma (t # ss)"

fun js_String :: "nat \<Rightarrow> heap \<Rightarrow> val \<Rightarrow> string" where
  "js_String n h VUndef = ''undefined''"
| "js_String n h VNull = ''null''"
| "js_String n h (VBool b) = (if b then ''true'' else ''false'')"
| "js_String n h (VNum i) = int_dec i"
| "js_String n h (VStr s) = s"
| "js_String 0 h (VRef a) = []"
| "js_String (Suc n) h (VRef a) =
     (case cell_at h a of
        None \<Rightarrow> []
      | Some (Obj kvs) \<Rightarrow> ''[object Object]''
      | Some (Arr xs) \<Rightarrow>
          join_comma (map (\<lambda>x. if v_nullish x then [] else js_String n h x) xs))"

text \<open>
  The element filter \<open>^(\w+)\s+eq\s+"?([^"]*)"?$\<close> on the trimmed expression: a
  word, white space, \<open>eq\<close>, white space, then the value between an optional opening
  and an optional closing double quote and no other double quote.
\<close>

definition parse_eq_filter :: "string \<Rightarrow> (string \<times> string) option" where
  "parse_eq_filter filterExpr =
     (let t = trim filterExpr;
          attr = takeWhile is_word t;
          r1 = dropWhile is_word t;
          r2 = dropWhile is_space r1;
          r3 = drop 2 r2;
          r4 = dropWhile is_space r3;
          body = (case r4 of [] \<Rightarrow> [] | c # cs \<Rightarrow> if c = dquote then cs else r4);
          closing = dropWhile (\<lambda>c. c \<noteq> dquote) body
      in if attr = [] \<or> r1 = r2 \<or> take 2 r2 \<noteq> ''eq'' \<or> r3 = r4 \<or>
            (closing \<noteq> [] \<and> closing \<noteq> [dquote])
         then None
         else Some (attr, takeWhile (\<lambda>c. c \<noteq> dquote) body))"

definition matchesFilter :: "heap \<Rightarrow> val \<Rightarrow> string \<Rightarrow> exn + bool" where
  "matchesFilter h item filterExpr =
     (case parse_eq_filter filterExpr of
        None \<Rightarrow> Inr False
      | Some (attr, v) \<Rightarrow>
          (case get_member h item attr of
             Inl x \<Rightarrow> Inl x
           | Inr itemVal \<Rightarrow>
               Inr (if v = ''true'' then itemVal = VBool True
                    else if v = ''false'' then itemVal = VBool False
                    else js_String (length h) h itemVal = v)))"

definition buildItemFromFilter :: "string \<Rightarrow> (string \<times> val) list" where
  "buildItemFromFilter filterExpr =
     (case parse_eq_filter filterExpr of
        None \<Rightarrow> []
      | Some (attr, v) \<Rightarrow> [(attr, VStr v)])"

text \<open>\<open>arr.filter((item) => !matchesFilter(item, filterExpr))\<close>.\<close>

fun filter_unmatched :: "heap \<Rightarrow> string \<Rightarrow> val list \<Rightarrow> exn + val list" where
  "filter_unmatched h f [] = Inr []"
| "filter_unmatched h f (x # xs) =
     (case matchesFilter h x f of
        Inl e \<Rightarrow> Inl e
      | Inr m \<Rightarrow>
          (case filter_unmatched h f xs of
             Inl e \<Rightarrow> Inl e
           | Inr kept \<Rightarrow> Inr (if m then kept else x # kept)))"

text \<open>
  \<open>arr.find((item) => matchesFilter(item, filterExpr))\<close>, with the position of the
  element found (where \<open>arr.indexOf\<close> finds it again).
\<close>

fun find_matching :: "heap \<Rightarrow> string \<Rightarrow> val list \<Rightarrow> nat \<Rightarrow> exn + (nat \<times> val) option" where
  "find_matching h f [] i = Inr None"
| "find_matching h f (x # xs) i =
     (case matchesFilter h x f of
        Inl e \<Rightarrow> Inl e
      | Inr m \<Rightarrow> if m then Inr (Some (i, x)) else find_matching h f xs (Suc i))"

text \<open>
  The path pattern \<open>^(\w+)\[([^\]]+)\](?:\.(\w+))?$\<close>: attribute name, filter
  expression, optional sub-attribute.
\<close>

definition parse_mv_path :: "string \<Rightarrow> (string \<times> string \<times> string option) option" where
  "parse_mv_path path =
     (let attrName = takeWhile is_word path;
          r1 = dropWhile is_word path;
          filterExpr = takeWhile (\<lambda>c. c \<noteq> CHR '']'') (drop 1 r1);
          r2 = dropWhile (\<lambda>c. c \<noteq> CHR '']'') (drop 1 r1);
          r3 = drop 1 r2
      in if attrName = [] \<or> take 1 r1 \<noteq> ''['' \<or> filterExpr = [] \<or> r2 = [] then None
         else if r3 = [] then Some (attrName, filterExpr, None)
         else if take 1 r3 = ''.'' \<and> drop 1 r3 \<noteq> [] \<and> list_all is_word (drop 1 r3)
         then Some (attrName, filterExpr, Some (drop 1 r3))
         else None)"

text \<open>The elements of an array value; anything else has no \<open>filter\<close> and no \<open>find\<close>.\<close>

definition array_elems :: "heap \<Rightarrow> val \<Rightarrow> (addr \<times> val list) option" where
  "array_elems h v =
     (case v of
        VRef a \<Rightarrow> (case cell_at h a of Some (Arr xs) \<Rightarrow> Some (a, xs) | _ \<Rightarrow> None)
      | _ \<Rightarrow> None)"

definition apply_multi_valued ::
  "heap \<Rightarrow> addr \<Rightarrow> string \<Rightarrow> string \<Rightarrow> string option \<Rightarrow> string \<Rightarrow> val \<Rightarrow> exn + heap \<times> string"
  where
  "apply_multi_valued h resource attrName filterExpr subAttr verb v =
     (case (let x = obj_read h resource attrName
            in if v_nullish x
               then (case new_cell (Arr []) h of (a, h') \<Rightarrow> (VRef a, h'))
               else (x, h)) of
        (arr, h1) \<Rightarrow>
          (case array_elems h1 arr of
             None \<Rightarrow> Inl TypeError
           | Some (a, elems) \<Rightarrow>
               if verb = ''remove''
               then (case filter_unmatched h1 filterExpr elems of
                       Inl e \<Rightarrow> Inl e
                     | Inr kept \<Rightarrow>
                         (case new_cell (Arr kept) h1 of
                            (b, h2) \<Rightarrow> Inr (obj_write h2 resource attrName (VRef b), attrName)))
               else (case find_matching h1 filterExpr elems 0 of
                       Inl e \<Rightarrow> Inl e
                     | Inr found \<Rightarrow>
                         (case (case found of
                                  None \<Rightarrow> None
                                | Some (idx, target) \<Rightarrow>
                                    if v_truthy target then Some (idx, target) else None) of
                            Some (idx, target) \<Rightarrow>
                              (case subAttr of
                                 Some sub \<Rightarrow>
                                   (case set_member h1 target sub v of
                                      Inl e \<Rightarrow> Inl e
                                    | Inr h2 \<Rightarrow>
                                        Inr (obj_write h2 resource attrName arr, attrName))
                               | None \<Rightarrow>
                                   (case new_cell
                                           (Obj (assign_all (assign_all [] (v_entries h1 target))
                                                   (v_entries h1 v))) h1 of
                                      (b, h2) \<Rightarrow>
                                        Inr (obj_write (h2[a := Arr (elems[idx := VRef b])])
                                               resource attrName arr, attrName)))
                          | None \<Rightarrow>
                              (let item0 = buildItemFromFilter filterExpr;
                                   newItem = (case subAttr of
                                                Some sub \<Rightarrow> prop_set item0 sub v
                                              | None \<Rightarrow> assign_all item0 (v_entries h1 v))
                               in case new_cell (Obj newItem) h1 of
                                    (b, h2) \<Rightarrow>
                                      (case new_cell (Arr (elems @ [VRef b])) h2 of
                                         (c, h3) \<Rightarrow>
                                           Inr (obj_write h3 resource attrName (VRef c),
                                                attrName)))))))"

definition apply_dotted ::
  "heap \<Rightarrow> addr \<Rightarrow> string \<Rightarrow> string \<Rightarrow> string \<Rightarrow> val \<Rightarrow> exn + heap \<times> string" where
  "apply_dotted h resource parent child verb v =
     (case (let x = obj_read h resource parent
            in if v_nullish x
               then (case new_cell (Obj []) h of (a, h') \<Rightarrow> (VRef a, h'))
               else (x, h)) of
        (parentObj, h1) \<Rightarrow>
          (case (if verb = ''remove'' then delete_member h1 parentObj child
                 else set_member h1 parentObj child v) of
             Inl e \<Rightarrow> Inl e
           | Inr h2 \<Rightarrow> Inr (obj_write h2 resource parent parentObj, parent)))"

definition apply_simple :: "heap \<Rightarrow> addr \<Rightarrow> string \<Rightarrow> string \<Rightarrow> val \<Rightarrow> heap \<times> string" where
  "apply_simple h resource key verb v =
     (if verb = ''remove'' then obj_remove h resource key else obj_write h resource key v, key)"

definition applyPath ::
  "heap \<Rightarrow> addr \<Rightarrow> string \<Rightarrow> string \<Rightarrow> val \<Rightarrow> exn + heap \<times> string" where
  "applyPath h resource path verb v =
     (if \<not> str_includes path ''.'' \<and> \<not> str_includes path ''[''
      then Inr (apply_simple h resource path verb v)
      else (case parse_mv_path path of
              Some (attrName, filterExpr, subAttr) \<Rightarrow>
                apply_multi_valued h resource attrName filterExpr subAttr verb v
            | None \<Rightarrow>
                (case split_on CHR ''.'' path of
                   [parent, child] \<Rightarrow> apply_dotted h resource parent child verb v
                 | _ \<Rightarrow> Inr (apply_simple h resource path verb v))))"

definition applyOp :: "heap \<Rightarrow> addr \<Rightarrow> addr \<Rightarrow> PatchOperation \<Rightarrow> exn + heap" where
  "applyOp h resource changed po =
     (let verb = toLowerCase (opName po) in
      case (case opPath po of None \<Rightarrow> None | Some p \<Rightarrow> if p = [] then None else Some p) of
        None \<Rightarrow>
          if verb = ''add'' \<or> verb = ''replace''
          then (if v_nullish (opValue po) then Inl TypeError
                else Inr (foldl (\<lambda>h' kv. obj_write (obj_write h' resource (fst kv) (snd kv))
                                           changed (fst kv) (snd kv))
                            h (v_entries h (opValue po))))
          else Inr h
      | Some p \<Rightarrow>
          (case applyPath h resource p verb (opValue po) of
             Inl e \<Rightarrow> Inl e
           | Inr (h1, topLevelKey) \<Rightarrow>
               Inr (if topLevelKey \<noteq> []
                    then obj_write h1 changed topLevelKey (obj_read h1 resource topLevelKey)
                    else h1)))"

fun applyOps :: "heap \<Rightarrow> addr \<Rightarrow> addr \<Rightarrow> PatchOperation list \<Rightarrow> exn + heap" where
  "applyOps h resource changed [] = Inr h"
| "applyOps h resource changed (po # pos) =
     (case applyOp h resource changed po of
        Inl e \<Rightarrow> Inl e
      | Inr h' \<Rightarrow> applyOps h' resource changed pos)"

text \<open>
  \<open>applyPatchOps\<close> returns the store after the operations with the addresses of
  \<open>updated\<close> (a copy of the members of \<open>resource\<close>) and of \<open>changedFields\<close>.
\<close>

definition applyPatchOps ::
  "heap \<Rightarrow> addr \<Rightarrow> PatchOperation list \<Rightarrow> exn + heap \<times> addr \<times> addr" where
  "applyPatchOps h resource operations =
     (case new_cell (Obj (assign_all [] (v_entries h (VRef resource)))) h of
        (updated, h1) \<Rightarrow>
          (case new_cell (Obj []) h1 of
             (changedFields, h2) \<Rightarrow>
               (case applyOps h2 updated changedFields operations of
                  Inl e \<Rightarrow> Inl e
                | Inr h3 \<Rightarrow> Inr (h3, updated, changedFields))))"

subsection \<open>Between JSON values and the store\<close>

text \<open>\<open>JSON.parse\<close> builds a fresh tree of cells for a JSON value.\<close>

fun alloc :: "json \<Rightarrow> heap \<Rightarrow> val \<times> heap"
  and alloc_list :: "json list \<Rightarrow> heap \<Rightarrow> val list \<times> heap"
  and alloc_fields :: "(string \<times> json) list \<Rightarrow> heap \<Rightarrow> (string \<times> val) list \<times> heap"
where
  "alloc JUndef h = (VUndef, h)"
| "alloc JNull h = (VNull, h)"
| "alloc (JBool b) h = (VBool b, h)"
| "alloc (JNum n) h = (VNum n, h)"
| "alloc (JStr s) h = (VStr s, h)"
| "alloc (JArr xs) h =
     (case alloc_list xs h of (vs, h1) \<Rightarrow> (VRef (length h1), h1 @ [Arr vs]))"
| "alloc (JObj kvs) h =
     (case alloc_fields kvs h of (fs, h1) \<Rightarrow> (VRef (length h1), h1 @ [Obj fs]))"
| "alloc_list [] h = ([], h)"
| "alloc_list (x # xs) h =
     (case alloc x h of (v, h1) \<Rightarrow> (case alloc_list xs h1 of (vs, h2) \<Rightarrow> (v # vs, h2)))"
| "alloc_fields [] h = ([], h)"
| "alloc_fields ((k, x) # kvs) h =
     (case alloc x h of
        (v, h1) \<Rightarrow> (case alloc_fields kvs h1 of (fs, h2) \<Rightarrow> ((k, v) # fs, h2)))"

text \<open>
  The JSON value a value of the store stands for, following references to the given
  depth; \<open>heap_json\<close> follows them as deep as the store has cells.
\<close>

fun reify :: "nat \<Rightarrow> heap \<Rightarrow> val \<Rightarrow> json" where
  "reify n h VUndef = JUndef"
| "reify n h VNull = JNull"
| "reify n h (VBool b) = JBool b"
| "reify n h (VNum i) = JNum i"
| "reify n h (VStr s) = JStr s"
| "reify 0 h (VRef a) = JUndef"
| "reify (Suc n) h (VRef a) =
     (case cell_at h a of
        None \<Rightarrow> JUndef
      | Some (Obj kvs) \<Rightarrow> JObj (map (\<lambda>kv. (fst kv, reify n h (snd kv))) kvs)
      | Some (Arr xs) \<Rightarrow> JArr (map (reify n h) xs))"

definition heap_json :: "heap \<Rightarrow> val \<Rightarrow> json" where
  "heap_json h v = reify (length h) h v"

subsection \<open>PATCH /Users/:id\<close>

text \<open>
  An element of \<open>Operations\<close> as the applier reads it: \<open>op.op.toLowerCase()\<close>
  raises unless \<open>op\<close> is a string, a falsy \<open>path\<close> is no path, and a truthy
  \<open>path\<close> must be a string for \<open>path.includes\<close> (\<open>PatchOperation.path\<close> is declared
  a string; an array there is read like the other non-strings).
\<close>

definition decode_operation :: "json \<Rightarrow> heap \<Rightarrow> exn + PatchOperation \<times> heap" where
  "decode_operation j h =
     (if nullish j then Inl TypeError
      else (case member j ''op'' of
              JStr verb \<Rightarrow>
                (case member j ''path'' of
                   JStr p \<Rightarrow>
                     (case alloc (member j ''value'') h of
                        (v, h') \<Rightarrow> Inr (\<lparr>opName = verb, opPath = Some p, opValue = v\<rparr>, h'))
                 | p \<Rightarrow>
                     if truthy p then Inl TypeError
                     else (case alloc (member j ''value'') h of
                             (v, h') \<Rightarrow> Inr (\<lparr>opName = verb, opPath = None, opValue = v\<rparr>, h')))
            | _ \<Rightarrow> Inl TypeError))"

fun decode_operations :: "json list \<Rightarrow> heap \<Rightarrow> exn + PatchOperation list \<times> heap" where
  "decode_operations [] h = Inr ([], h)"
| "decode_operations (j # js) h =
     (case decode_operation j h of
        Inl e \<Rightarrow> Inl e
      | Inr (po, h1) \<Rightarrow>
          (case decode_operations js h1 of
             Inl e \<Rightarrow> Inl e
           | Inr (pos, h2) \<Rightarrow> Inr (po # pos, h2)))"

text \<open>
  \<open>applyPatchOps(JSON.parse(row.scim_resource), patchBody.Operations)\<close>: the stored
  resource and the operations are parsed into a fresh store, and the two results are
  read back as JSON values.
\<close>

definition run_patch :: "jobject \<Rightarrow> json list \<Rightarrow> exn + json \<times> jobject" where
  "run_patch currentResource ops =
     (case alloc_fields currentResource [] of
        (fs, h0) \<Rightarrow>
          (case decode_operations ops (h0 @ [Obj fs]) of
             Inl e \<Rightarrow> Inl e
           | Inr (pos, h1) \<Rightarrow>
               (case applyPatchOps h1 (length h0) pos of
                  Inl e \<Rightarrow> Inl e
                | Inr (h2, updated, changedFields) \<Rightarrow>
                    Inr (heap_json h2 (VRef updated),
                         (case heap_json h2 (VRef changedFields) of
                            JObj kvs \<Rightarrow> kvs
                          | _ \<Rightarrow> [])))))"

text \<open>The block "Persist the patched SCIM resource".\<close>

definition patch_persist :: "env \<Rightarrow> string \<Rightarrow> json \<Rightarrow> db \<Rightarrow> db" where
  "patch_persist e i patchedResource s =
     db_update i
       (\<lambda>r. r\<lparr>scim_resource :=
                 stringify_object (prop_set (spread_into [] patchedResource) ''id'' (JStr i)),
               sync_status := Pending,
               updated_at := now e 0\<rparr>) s"

text \<open>The block "Execute Set-ADUser with only the changed attributes".\<close>

definition patch_sync ::
  "env \<Rightarrow> string \<Rightarrow> ScimUserRow \<Rightarrow> jobject \<Rightarrow> PowerShellResult \<Rightarrow> PowerShellResult \<Rightarrow> db \<Rightarrow>
   reply \<times> db" where
  "patch_sync e i row changedFields psSet psGet s =
     (case identity_of row of
        None \<Rightarrow> (no_identity, s)
      | Some identity \<Rightarrow>
          if identity = [] then (no_identity, s)
          else (case scimToAdParams changedFields None of
                  Inl x \<Rightarrow> (Threw x, s)
                | Inr adParams \<Rightarrow>
                    if strip_name_path adParams \<noteq> []
                    then set_ad_user e i identity (strip_name_path adParams) psSet psGet s
                    else finish_synced e i identity psGet s))"

definition patch_users ::
  "env \<Rightarrow> string \<Rightarrow> jobject \<Rightarrow> PowerShellResult \<Rightarrow> PowerShellResult \<Rightarrow> db \<Rightarrow> reply \<times> db" where
  "patch_users e i patchBody psSet psGet s =
     (case (case obj_get patchBody ''Operations'' of
              JArr ops \<Rightarrow> if ops = [] then None else Some ops
            | _ \<Rightarrow> None) of
        None \<Rightarrow>
          (send_error 400 ''Operations array is required and must not be empty.''
             (Some ''invalidValue''), s)
      | Some ops \<Rightarrow>
          (case find_by_id i s of
             None \<Rightarrow> (not_found i, s)
           | Some row \<Rightarrow>
               (case run_patch (scim_resource row) ops of
                  Inl x \<Rightarrow> (Threw x, s)
                | Inr (patchedResource, changedFields) \<Rightarrow>
                    patch_sync e i row changedFields psSet psGet
                      (patch_persist e i patchedResource s))))"

text \<open>The invariant of the cache on \<open>sync_status\<close> and \<open>last_error\<close>, row by row.\<close>

definition row_consistent :: "ScimUserRow \<Rightarrow> bool" where
  "row_consistent r = (sync_status r \<noteq> Synced \<or> last_error r = None)"

definition synced_without_error :: "db \<Rightarrow> bool" where
  "synced_without_error s = list_all row_consistent (scim_users s)"

text \<open>
  What a persisted \<open>sam_account_name\<close> must look like: at most 20 characters and no
  \<open>@\<close>.
\<close>

definition sam_well_formed :: "ScimUserRow \<Rightarrow> bool" where
  "sam_well_formed r =
     (case sam_account_name r of
        None \<Rightarrow> True
      | Some sam \<Rightarrow> length sam \<le> 20 \<and> CHR ''@'' \<notin> set sam)"

text \<open>
  Every row that an operation leaves in the cache either was there before the
  operation, unchanged, or satisfies the invariant.
\<close>

definition written_rows_consistent :: "db \<Rightarrow> db \<Rightarrow> bool" where
  "written_rows_consistent s s' =
     list_all (\<lambda>r. r \<in> set (scim_users s) \<or> row_consistent r) (scim_users s')"

text \<open>
  While an operation runs on the rows of one id, those rows have been written with the
  property \<open>G\<close> and every other row is as it was (or has the property).
\<close>

definition settled :: "(ScimUserRow \<Rightarrow> bool) \<Rightarrow> db \<Rightarrow> string \<Rightarrow> ScimUserRow \<Rightarrow> bool" where
  "settled G s i r = (if row_id r = i then G r else r \<in> set (scim_users s) \<or> G r)"

section \<open>The steps of the mapper\<close>

text \<open>The blocks of \<open>scimToAdParams\<close>, named for the proofs.\<close>

definition user_name_params :: "json \<Rightarrow> exn + jobject" where
  "user_name_params userName =
     (if truthy userName
      then (case includes_at userName of
              Inl e \<Rightarrow> Inl e
            | Inr at \<Rightarrow>
                Inr (let p = prop_set [] ''SamAccountName'' userName
                     in if at then prop_set p ''UserPrincipalName'' userName else p))
      else Inr [])"

definition rest_params :: "jobject \<Rightarrow> string option \<Rightarrow> jobject \<Rightarrow> json \<Rightarrow> jobject" where
  "rest_params scimUser ou p1 emailValue =
     (let name = obj_get scimUser ''name'';
          givenName = (if nullish name then JUndef else member name ''givenName'');
          familyName = (if nullish name then JUndef else member name ''familyName'');
          p2 = set_if_truthy p1 ''GivenName'' givenName;
          p3 = set_if_truthy p2 ''Surname'' familyName;
          p4 = set_if_truthy p3 ''EmailAddress'' emailValue;
          p5 = set_if_truthy p4 ''DisplayName'' (obj_get scimUser ''displayName'');
          p6 = (case obj_get scimUser ''active'' of
                  JBool b \<Rightarrow> prop_set p5 ''Enabled'' (JBool b)
                | _ \<Rightarrow> p5);
          p7 = set_if_truthy p6 ''EmployeeID'' (obj_get scimUser ''externalId'');
          p8 = prop_set p7 ''Name''
                 (if nullish (obj_get p7 ''DisplayName'')
                  then obj_get p7 ''SamAccountName''
                  else obj_get p7 ''DisplayName'')
      in (case ou of
            None \<Rightarrow> p8
          | Some x \<Rightarrow> if x \<noteq> [] then prop_set p8 ''Path'' (JStr x) else p8))"

text \<open>
  A SCIM user whose mapped fields have their declared types as far as the mapper
  depends on them: userName is a string or absent, emails is a list of objects or
  absent.
\<close>

fun is_object :: "json \<Rightarrow> bool" where
  "is_object (JObj kvs) = True"
| "is_object v = False"

definition scim_user_typed :: "jobject \<Rightarrow> bool" where
  "scim_user_typed u =
     ((case obj_get u ''userName'' of JStr s \<Rightarrow> True | JUndef \<Rightarrow> True | _ \<Rightarrow> False) \<and>
      (case obj_get u ''emails'' of
         JArr xs \<Rightarrow> list_all is_object xs
       | JUndef \<Rightarrow> True
       | _ \<Rightarrow> False))"

definition bob_resource :: jobject where
  "bob_resource =
     [(''userName'', JStr ''bob@ex.com''),
      (''name'', JObj [(''givenName'', JStr ''Bob''), (''familyName'', JStr ''Ross'')]),
      (''emails'', JArr [JObj [(''value'', JStr ''bob@ex.com''), (''primary'', JBool True)]]),
      (''displayName'', JStr ''Bob Ross''), (''active'', JBool False),
      (''externalId'', JStr ''00u1'')]"

section \<open>Example requests\<close>

definition example_env :: env where
  "example_env =
     \<lparr>baseOu = ''OU=People,DC=ex,DC=com'',
      defaultPassword = ''Chang3-me!'',
      uuidv4 = ''7b0e2c1a-5d1f-4c3e-9a57-0f6d2b9c4e11'',
      now = (\<lambda>n. ''2026-03-01T10:00:0'' @ dec n @ ''Z''),
      baseUrl = ''https://scim.ex.com''\<rparr>"

definition run_ok :: "json \<Rightarrow> PowerShellResult" where
  "run_ok out = \<lparr>stdout = [], stderr = [], exitCode = 0, durationMs = 120, parsed = out\<rparr>"

definition run_failed :: "string \<Rightarrow> PowerShellResult" where
  "run_failed err = \<lparr>stdout = [], stderr = err, exitCode = 1, durationMs = 95, parsed = JNull\<rparr>"

definition alice_resource :: jobject where
  "alice_resource =
     [(''userName'', JStr ''alice@ex.com''), (''externalId'', JStr ''abc''),
      (''name'', JObj [(''givenName'', JStr ''Al''), (''familyName'', JStr ''Ice'')]),
      (''active'', JBool True)]"

definition alice_row :: ScimUserRow where
  "alice_row =
     \<lparr>row_id = ''abc'',
      ad_object_guid = Some ''11111111-1111-1111-1111-111111111111'',
      sam_account_name = Some ''alice'',
      scim_resource = alice_resource @ [(''id'', JStr ''abc'')],
      ad_resource = None,
      sync_status = Error,
      last_error = Some ''Access is denied.'',
      created_at = ''2026-02-01T09:00:00Z'',
      updated_at = ''2026-02-01T09:00:00Z''\<rparr>"

text \<open>A row that has neither an objectGUID nor a sAMAccountName.\<close>

definition orphan_row :: ScimUserRow where
  "orphan_row =
     \<lparr>row_id = ''u2'',
      ad_object_guid = None,
      sam_account_name = None,
      scim_resource = [(''displayName'', JStr ''Bob''), (''id'', JStr ''u2'')],
      ad_resource = None,
      sync_status = Pending,
      last_error = None,
      created_at = ''2026-02-02T09:00:00Z'',
      updated_at = ''2026-02-02T09:00:00Z''\<rparr>"

definition example_db :: db where
  "example_db = \<lparr>scim_users = [alice_row, orphan_row], powershell_executions = []\<rparr>"

definition empty_db :: db where
  "empty_db = \<lparr>scim_users = [], powershell_executions = []\<rparr>"

definition created_guid :: json where
  "created_guid = JObj [(''ObjectGUID'', JStr ''11111111-1111-1111-1111-111111111111'')]"

text \<open>
  The rows of an id hold the serialisation of a resource (with the id set) in state
  \<open>pending\<close>, and there is such a row.
\<close>

definition stored_pending :: "db \<Rightarrow> string \<Rightarrow> json \<Rightarrow> bool" where
  "stored_pending s i res =
     (list_ex (\<lambda>r. row_id r = i) (scim_users s) \<and>
      list_all (\<lambda>r. row_id r \<noteq> i \<or>
                     (scim_resource r =
                        stringify_object (prop_set (spread_into [] res) ''id'' (JStr i)) \<and>
                      sync_status r = Pending))
        (scim_users s))"

text \<open>The operation of the e-mail scenario: add, path \<open>emails[type eq "work"].value\<close>.\<close>

definition work_filter :: string where
  "work_filter = ''type eq '' @ [dquote] @ ''work'' @ [dquote]"

definition work_email_path :: string where
  "work_email_path = ''emails['' @ work_filter @ ''].value''"

definition add_work_email :: PatchOperation where
  "add_work_email = \<lparr>opName = ''add'', opPath = Some work_email_path, opValue = VStr ''a@b''\<rparr>"

definition add_work_email_json :: json where
  "add_work_email_json =
     JObj [(''op'', JStr ''add''), (''path'', JStr work_email_path), (''value'', JStr ''a@b'')]"

definition work_email :: json where
  "work_email = JArr [JObj [(''type'', JStr ''work''), (''value'', JStr ''a@b'')]]"

text \<open>A resource with a nested name, one with a work e-mail, and patches that touch them.\<close>

definition named_resource :: json where
  "named_resource = JObj [(''name'', JObj [(''givenName'', JStr ''A'')])]"

definition replace_given_name :: PatchOperation where
  "replace_given_name =
     \<lparr>opName = ''replace'', opPath = Some ''name.givenName'', opValue = VStr ''B''\<rparr>"

definition mailed_resource :: json where
  "mailed_resource =
     JObj [(''emails'', JArr [JObj [(''type'', JStr ''work''), (''value'', JStr ''old@b'')]])]"

definition replace_work_email :: PatchOperation where
  "replace_work_email =
     \<lparr>opName = ''replace'', opPath = Some work_email_path, opValue = VStr ''a@b''\<rparr>"

text \<open>The list filter \<open>userName eq "x@y"\<close> and a row created for that userName.\<close>

definition filter_x_at_y :: string where
  "filter_x_at_y = ''userName eq '' @ [dquote] @ ''x@y'' @ [dquote]"

definition x_row :: ScimUserRow where
  "x_row =
     \<lparr>row_id = ''u7'',
      ad_object_guid = Some ''22222222-2222-2222-2222-222222222222'',
      sam_account_name = Some ''x'',
      scim_resource = [(''userName'', JStr ''x@y''), (''id'', JStr ''u7'')],
      ad_resource = None,
      sync_status = Synced,
      last_error = None,
      created_at = ''2026-02-03T09:00:00Z'',
      updated_at = ''2026-02-03T09:00:00Z''\<rparr>"

definition x_db :: db where
  "x_db = \<lparr>scim_users = [x_row], powershell_executions = []\<rparr>"

text \<open>The cache after a replace of the row without identity by \<open>{displayName: "Bobby"}\<close>.\<close>

definition orphan_replaced :: db where
  "orphan_replaced =
     \<lparr>scim_users =
        [alice_row,
         orphan_row\<lparr>scim_resource := [(''displayName'', JStr ''Bobby''), (''id'', JStr ''u2'')],
                    sync_status := Pending,
                    updated_at := ''2026-03-01T10:00:00Z''\<rparr>],
      powershell_executions = []\<rparr>"

definition rename_operation :: json where
  "rename_operation =
     JObj [(''op'', JStr ''replace''), (''path'', JStr ''displayName''),
           (''value'', JStr ''Bobby'')]"

section \<open>Properties of the error classifier\<close>

lemma includes_iff: "str_includes s sub \<longleftrightarrow> (\<exists>pre suf. s = pre @ sub @ suf)"
proof (induction s)
  case Nil
  then show ?case by auto
next
  case (Cons c cs)
  show ?case
  proof
    assume "str_includes (c # cs) sub"
    then consider "prefix sub (c # cs)" | "str_includes cs sub" by auto
    then show "\<exists>pre suf. c # cs = pre @ sub @ suf"
    proof cases
      case 1
      then obtain suf where "c # cs = sub @ suf" by (auto simp: prefix_def)
      then have "c # cs = [] @ sub @ suf" by simp
      then show ?thesis by blast
    next
      case 2
      with Cons.IH obtain pre suf where "cs = pre @ sub @ suf" by blast
      then have "c # cs = (c # pre) @ sub @ suf" by simp
      then show ?thesis by blast
    qed
  next
    assume "\<exists>pre suf. c # cs = pre @ sub @ suf"
    then obtain pre suf where eq: "c # cs = pre @ sub @ suf" by blast
    show "str_includes (c # cs) sub"
    proof (cases pre)
      case Nil
      with eq have "prefix sub (c # cs)" by (simp add: prefix_def)
      then show ?thesis by simp
    next
      case (Cons p ps)
      with eq have "cs = ps @ sub @ suf" by simp
      with Cons.IH have "str_includes cs sub" by blast
      then show ?thesis by simp
    qed
  qed
qed

text \<open>
  C8. For every stderr string the classifier lowercases the message and applies the
  rules of the table in their order, the first satisfied rule giving status and SCIM
  type and 500 without a type when none is satisfied; the detail returned is the
  stderr as it was given, not lowercased.
\<close>

theorem mapPsErrorToScim_table:
  "mapPsErrorToScim msg = spec_classify msg \<and> detail (mapPsErrorToScim msg) = msg"
  by (simp add: mapPsErrorToScim_def spec_classify_def spec_rules_def Let_def)

theorem mapPsErrorToScim_table_witness:
  "mapPsErrorToScim ''Access is DENIED: New-ADUser Invalid'' =
     \<lparr>status = 403, scimType = None, detail = ''Access is DENIED: New-ADUser Invalid''\<rparr> \<and>
   spec_classify ''Access is DENIED: New-ADUser Invalid'' =
     \<lparr>status = 403, scimType = None, detail = ''Access is DENIED: New-ADUser Invalid''\<rparr>"
proof -
  have "spec_classify ''Access is DENIED: New-ADUser Invalid'' =
     \<lparr>status = 403, scimType = None, detail = ''Access is DENIED: New-ADUser Invalid''\<rparr>"
    by (simp add: spec_classify_def spec_rules_def toLowerCase_def lower_char_def)
  then show ?thesis
    using mapPsErrorToScim_table [of "''Access is DENIED: New-ADUser Invalid''"] by simp
qed

section \<open>Properties of objects\<close>

lemma prop_set_fresh: "k \<notin> fst ` set kvs \<Longrightarrow> prop_set kvs k v = kvs @ [(k, v)]"
  by (induction kvs) auto

lemma assign_fresh:
  "distinct (map fst es) \<Longrightarrow> fst ` set es \<inter> fst ` set acc = {} \<Longrightarrow>
   foldl (\<lambda>a kv. prop_set a (fst kv) (g kv)) acc es = acc @ map (\<lambda>kv. (fst kv, g kv)) es"
proof (induction es arbitrary: acc)
  case Nil
  then show ?case by simp
next
  case (Cons e es)
  from Cons.prems have fresh: "fst e \<notin> fst ` set acc" by auto
  have step: "prop_set acc (fst e) (g e) = acc @ [(fst e, g e)]"
    using fresh by (rule prop_set_fresh)
  from Cons.prems have d: "distinct (map fst es)"
    and disj: "fst ` set es \<inter> fst ` set (acc @ [(fst e, g e)]) = {}"
    by auto
  show ?case
    using Cons.IH [OF d disj] step by simp
qed

lemma set_prop_delete: "set (prop_delete kvs k) = {kv \<in> set kvs. fst kv \<noteq> k}"
  by (auto simp: prop_delete_def)

lemma own_entries_subset: "set (own_entries kvs) \<subseteq> set kvs"
proof (induction kvs rule: own_entries.induct)
  case 1
  then show ?case by simp
next
  case (2 k v kvs)
  then show ?case by (auto simp: set_prop_delete)
qed

lemma own_entries_distinct: "distinct (map fst (own_entries kvs))"
proof (induction kvs rule: own_entries.induct)
  case 1
  then show ?case by simp
next
  case (2 k v kvs)
  have "k \<notin> fst ` set (own_entries (prop_delete kvs k))"
    using own_entries_subset [of "prop_delete kvs k"] by (auto simp: set_prop_delete)
  with 2 show ?case by simp
qed

lemma prop_lookup_delete:
  "prop_lookup (prop_delete kvs k) k' = (if k' = k then None else prop_lookup kvs k')"
  by (induction kvs) (auto simp: prop_delete_def)

lemma prop_lookup_own_entries: "prop_lookup (own_entries kvs) k = prop_lookup kvs k"
proof (induction kvs rule: own_entries.induct)
  case 1
  then show ?case by simp
next
  case (2 k' v kvs)
  then show ?case by (simp add: prop_lookup_delete)
qed

lemma prop_lookup_map_value:
  "prop_lookup (map (\<lambda>kv. (fst kv, g kv)) kvs) k =
     (case find (\<lambda>kv. fst kv = k) kvs of Some kv \<Rightarrow> Some (g kv) | None \<Rightarrow> None)"
  by (induction kvs) auto

lemma find_key_lookup:
  "find (\<lambda>kv. fst kv = k) kvs = (case prop_lookup kvs k of Some v \<Rightarrow> Some (k, v) | None \<Rightarrow> None)"
  by (induction kvs) auto

lemma prop_lookup_set:
  "prop_lookup (prop_set kvs k v) k' = (if k' = k then Some v else prop_lookup kvs k')"
  by (induction kvs) auto

lemma assign_all_own_entries: "assign_all [] (own_entries kvs) = own_entries kvs"
  unfolding assign_all_def
  using assign_fresh [OF own_entries_distinct, of kvs "[]" snd] by simp

section \<open>Redaction of audit parameters\<close>

lemma sanitizeParams_map:
  "sanitizeParams ps =
     map (\<lambda>kv. (fst kv, if toLowerCase (fst kv) \<in> set SENSITIVE_KEYS then REDACTED else snd kv))
       (own_entries ps)"
  unfolding sanitizeParams_def
  using assign_fresh [OF own_entries_distinct, of ps "[]"
      "\<lambda>kv. if toLowerCase (fst kv) \<in> set SENSITIVE_KEYS then REDACTED else snd kv"]
  by simp

lemma list_all2_filter_keys:
  "list_all2 R xs ys \<Longrightarrow> (\<And>x y. R x y \<Longrightarrow> P x = Q y) \<Longrightarrow>
   list_all2 R (filter P xs) (filter Q ys)"
  by (induction rule: list_all2_induct) auto

lemma list_all2_own_entries:
  assumes "list_all2 R p1 p2" and key: "\<And>x y. R x y \<Longrightarrow> fst x = fst y"
  shows "list_all2 R (own_entries p1) (own_entries p2)"
  using assms(1)
proof (induction p1 arbitrary: p2 rule: own_entries.induct)
  case 1
  then show ?case by simp
next
  case (2 k v kvs)
  from "2.prems" obtain k' v' kvs' where p2: "p2 = (k', v') # kvs'"
    and hd: "R (k, v) (k', v')" and tl: "list_all2 R kvs kvs'"
    by (auto simp: list_all2_Cons1)
  from key [OF hd] have kk: "k' = k" by simp
  have "list_all2 R (prop_delete kvs k) (prop_delete kvs' k)"
    unfolding prop_delete_def
    by (rule list_all2_filter_keys [OF tl]) (simp add: key)
  from "2.IH" [OF this] show ?case
    using hd by (simp add: p2 kk)
qed

lemma sanitizeParams_noninterference:
  assumes "differ_only_in_sensitive p1 p2"
  shows "sanitizeParams p1 = sanitizeParams p2"
proof -
  let ?R = "\<lambda>a b. fst a = fst b \<and> (toLowerCase (fst a) \<in> set SENSITIVE_KEYS \<or> snd a = snd b)"
  let ?f = "\<lambda>kv. (fst kv, if toLowerCase (fst kv) \<in> set SENSITIVE_KEYS then REDACTED else snd kv)"
  have "list_all2 ?R (own_entries p1) (own_entries p2)"
    by (rule list_all2_own_entries) (use assms in \<open>auto simp: differ_only_in_sensitive_def\<close>)
  then have "map ?f (own_entries p1) = map ?f (own_entries p2)"
    by (induction rule: list_all2_induct) auto
  then show ?thesis by (simp only: sanitizeParams_map)
qed

text \<open>
  C1. For every parameter map handed to the audit log, the audit row's parameters are
  the serialisation of the sanitised map, in which every key of the sensitive set
  (accountpassword, password, secret, token, compared in lower case) holds the fixed
  redaction marker and every other key holds its value; and two parameter maps that
  differ only in the values of sensitive keys give identical serialised audit
  parameters.
\<close>

theorem audit_parameters_redacted:
  "parameters (audit_row \<lparr>cmdlet = c, params = ps, scimUserId = u\<rparr> res) =
     JSON_stringify (JObj (sanitizeParams ps)) \<and>
   map fst (sanitizeParams ps) = map fst (own_entries ps) \<and>
   prop_lookup (sanitizeParams ps) k =
     (case prop_lookup ps k of
        None \<Rightarrow> None
      | Some v \<Rightarrow> Some (if toLowerCase k \<in> set SENSITIVE_KEYS then REDACTED else v)) \<and>
   (differ_only_in_sensitive ps ps' \<longrightarrow>
      parameters (audit_row \<lparr>cmdlet = c, params = ps, scimUserId = u\<rparr> res) =
      parameters (audit_row \<lparr>cmdlet = c, params = ps', scimUserId = u\<rparr> res))"
proof (intro conjI impI)
  show "parameters (audit_row \<lparr>cmdlet = c, params = ps, scimUserId = u\<rparr> res) =
     JSON_stringify (JObj (sanitizeParams ps))"
    by (simp add: audit_row_def)
  show "map fst (sanitizeParams ps) = map fst (own_entries ps)"
    by (simp add: sanitizeParams_map comp_def)
  show "prop_lookup (sanitizeParams ps) k =
     (case prop_lookup ps k of
        None \<Rightarrow> None
      | Some v \<Rightarrow> Some (if toLowerCase k \<in> set SENSITIVE_KEYS then REDACTED else v))"
    by (simp add: sanitizeParams_map prop_lookup_map_value find_key_lookup
        prop_lookup_own_entries split: option.split)
next
  assume "differ_only_in_sensitive ps ps'"
  then have "sanitizeParams ps = sanitizeParams ps'"
    by (rule sanitizeParams_noninterference)
  then show "parameters (audit_row \<lparr>cmdlet = c, params = ps, scimUserId = u\<rparr> res) =
      parameters (audit_row \<lparr>cmdlet = c, params = ps', scimUserId = u\<rparr> res)"
    by (simp add: audit_row_def)
qed

theorem audit_parameters_redacted_witness:
  "differ_only_in_sensitive
     [(''identity'', JStr ''alice''), (''AccountPassword'', JStr ''hunter2'')]
     [(''identity'', JStr ''alice''), (''AccountPassword'', JStr ''Tr0ub4dor'')] \<and>
   parameters (audit_row \<lparr>cmdlet = ''Set-ADUser'',
       params = [(''identity'', JStr ''alice''), (''AccountPassword'', JStr ''hunter2'')],
       scimUserId = None\<rparr> (run_ok JNull)) =
   parameters (audit_row \<lparr>cmdlet = ''Set-ADUser'',
       params = [(''identity'', JStr ''alice''), (''AccountPassword'', JStr ''Tr0ub4dor'')],
       scimUserId = None\<rparr> (run_ok JNull)) \<and>
   prop_lookup (sanitizeParams
       [(''identity'', JStr ''alice''), (''AccountPassword'', JStr ''hunter2'')])
     ''AccountPassword'' = Some (JStr ''***REDACTED***'')"
proof -
  have d: "differ_only_in_sensitive
     [(''identity'', JStr ''alice''), (''AccountPassword'', JStr ''hunter2'')]
     [(''identity'', JStr ''alice''), (''AccountPassword'', JStr ''Tr0ub4dor'')]"
    by (simp add: differ_only_in_sensitive_def SENSITIVE_KEYS_def toLowerCase_def lower_char_def)
  have s: "toLowerCase ''AccountPassword'' \<in> set SENSITIVE_KEYS"
    by (simp add: SENSITIVE_KEYS_def toLowerCase_def lower_char_def)
  note t = audit_parameters_redacted
      [of "''Set-ADUser''"
          "[(''identity'', JStr ''alice''), (''AccountPassword'', JStr ''hunter2'')]"
          None "run_ok JNull" "''AccountPassword''"
          "[(''identity'', JStr ''alice''), (''AccountPassword'', JStr ''Tr0ub4dor'')]"]
  note eq = t [THEN conjunct2, THEN conjunct2, THEN conjunct2, THEN mp, OF d]
  have look: "prop_lookup (sanitizeParams
       [(''identity'', JStr ''alice''), (''AccountPassword'', JStr ''hunter2'')])
     ''AccountPassword'' = Some (JStr ''***REDACTED***'')"
    using t [THEN conjunct2, THEN conjunct2, THEN conjunct1] s
    by (simp add: REDACTED_def)
  from d eq look show ?thesis by (intro conjI)
qed

section \<open>The cache after each step\<close>

lemma execSetAdUser_users:
  "execSetAdUser ident ps i r s = (res, s') \<Longrightarrow> scim_users s' = scim_users s \<and> res = r"
  by (auto simp: execSetAdUser_def executePowerShell_def)

lemma execRemoveAdUser_users:
  "execRemoveAdUser ident i r s = (res, s') \<Longrightarrow> scim_users s' = scim_users s \<and> res = r"
  by (auto simp: execRemoveAdUser_def executePowerShell_def)

lemma execNewAdUser_users:
  "execNewAdUser ps i r s = Inr (res, s') \<Longrightarrow> scim_users s' = scim_users s \<and> res = r"
  by (auto simp: execNewAdUser_def Let_def executePowerShell_def split: if_splits)

lemma db_update_users:
  "scim_users (db_update i f s) = update_where_id i f (scim_users s)"
  by (simp add: db_update_def)

lemma db_update_sam_users:
  "db_update_sam i sam f s = Inr s' \<Longrightarrow>
   scim_users s' = update_where_id i (\<lambda>r. (f r)\<lparr>sam_account_name := sam\<rparr>) (scim_users s)"
  by (auto simp: db_update_sam_def db_update_users split: if_splits)

lemma db_insert_users:
  "db_insert row s = Inr s' \<Longrightarrow> scim_users s' = scim_users s @ [row]"
  by (auto simp: db_insert_def split: if_splits)

lemma db_delete_users:
  "scim_users (db_delete i s) = filter (\<lambda>r. row_id r \<noteq> i) (scim_users s)"
  by (simp add: db_delete_def)

lemma refresh_users:
  "scim_users (refreshAdResource ident i res ts s) =
     (if exitCode res \<noteq> 0 \<or> \<not> truthy (parsed res) then scim_users s
      else update_where_id i (\<lambda>r. r\<lparr>ad_resource := Some (JSON_stringify (parsed res)),
                              updated_at := ts\<rparr>) (scim_users s))"
  by (simp add: refreshAdResource_def execGetAdUser_def executePowerShell_def db_update_users)

lemma list_all_update_where_id:
  "list_all P (update_where_id i f rows) =
     list_all (\<lambda>r. if row_id r = i then P (f r) else P r) rows"
  by (induction rows) (auto simp: update_where_id_def)

lemma list_all_update_keeps:
  "list_all P rows \<Longrightarrow> (\<And>r. row_id r = i \<Longrightarrow> P r \<Longrightarrow> P (f r)) \<Longrightarrow>
   list_all P (update_where_id i f rows)"
  by (induction rows) (auto simp: update_where_id_def)

section \<open>Row predicates kept by the steps\<close>

lemma refresh_keeps:
  assumes "list_all P (scim_users s)"
    and "\<And>r a t. row_id r = i \<Longrightarrow> P r \<Longrightarrow> P (r\<lparr>ad_resource := a, updated_at := t\<rparr>)"
  shows "list_all P (scim_users (refreshAdResource ident i res ts s))"
  using assms by (simp add: refresh_users list_all_update_keeps)

lemma finish_synced_keeps:
  assumes "list_all P (scim_users s)"
    and "\<And>r t. row_id r = i \<Longrightarrow> P r \<Longrightarrow>
       P (r\<lparr>sync_status := Synced, last_error := None, updated_at := t\<rparr>)"
    and "\<And>r a t. row_id r = i \<Longrightarrow> P r \<Longrightarrow> P (r\<lparr>ad_resource := a, updated_at := t\<rparr>)"
  shows "list_all P (scim_users (snd (finish_synced e i ident psGet s)))"
proof -
  have "list_all P (scim_users (mark_synced i (now e 1) s))"
    unfolding mark_synced_def db_update_users
    by (rule list_all_update_keeps) (use assms in auto)
  then show ?thesis
    unfolding finish_synced_def Let_def snd_conv
    by (rule refresh_keeps) (use assms in auto)
qed

lemma set_ad_user_keeps:
  assumes "list_all P (scim_users s)"
    and "\<And>r x t. row_id r = i \<Longrightarrow> P r \<Longrightarrow>
       P (r\<lparr>sync_status := Error, last_error := x, updated_at := t\<rparr>)"
    and "\<And>r t. row_id r = i \<Longrightarrow> P r \<Longrightarrow>
       P (r\<lparr>sync_status := Synced, last_error := None, updated_at := t\<rparr>)"
    and "\<And>r a t. row_id r = i \<Longrightarrow> P r \<Longrightarrow> P (r\<lparr>ad_resource := a, updated_at := t\<rparr>)"
  shows "list_all P (scim_users (snd (set_ad_user e i ident ps psSet psGet s)))"
proof (cases "execSetAdUser ident ps i psSet s")
  case (Pair res s1)
  from execSetAdUser_users [OF Pair] have s1: "scim_users s1 = scim_users s" by simp
  have base: "list_all P (scim_users s1)" using assms(1) s1 by simp
  show ?thesis
  proof (cases "exitCode res \<noteq> 0")
    case True
    have "list_all P (scim_users (mark_error i (stderr res) (now e 1) s1))"
      unfolding mark_error_def db_update_users
      by (rule list_all_update_keeps [OF base]) (use assms in auto)
    with True show ?thesis by (simp add: set_ad_user_def Pair)
  next
    case False
    have "list_all P (scim_users (snd (finish_synced e i ident psGet s1)))"
      by (rule finish_synced_keeps [OF base]) (use assms in auto)
    with False show ?thesis by (simp add: set_ad_user_def Pair)
  qed
qed

lemma put_sync_keeps:
  assumes "list_all P (scim_users s)"
    and "\<And>r x t. row_id r = i \<Longrightarrow> P r \<Longrightarrow>
       P (r\<lparr>sync_status := Error, last_error := x, updated_at := t\<rparr>)"
    and "\<And>r t. row_id r = i \<Longrightarrow> P r \<Longrightarrow>
       P (r\<lparr>sync_status := Synced, last_error := None, updated_at := t\<rparr>)"
    and "\<And>r a t. row_id r = i \<Longrightarrow> P r \<Longrightarrow> P (r\<lparr>ad_resource := a, updated_at := t\<rparr>)"
  shows "list_all P (scim_users (snd (put_sync e i row scimUser psSet psGet s)))"
  unfolding put_sync_def
  using assms(1) set_ad_user_keeps [of P s, OF assms]
  by (auto split: option.splits sum.splits)

lemma patch_sync_keeps:
  assumes "list_all P (scim_users s)"
    and "\<And>r x t. row_id r = i \<Longrightarrow> P r \<Longrightarrow>
       P (r\<lparr>sync_status := Error, last_error := x, updated_at := t\<rparr>)"
    and "\<And>r t. row_id r = i \<Longrightarrow> P r \<Longrightarrow>
       P (r\<lparr>sync_status := Synced, last_error := None, updated_at := t\<rparr>)"
    and "\<And>r a t. row_id r = i \<Longrightarrow> P r \<Longrightarrow> P (r\<lparr>ad_resource := a, updated_at := t\<rparr>)"
  shows "list_all P (scim_users (snd (patch_sync e i row changed psSet psGet s)))"
  unfolding patch_sync_def
  using assms(1) set_ad_user_keeps [of P s, OF assms]
    finish_synced_keeps [of P s, OF assms(1) assms(3) assms(4)]
  by (auto split: option.splits sum.splits)

lemma delete_users_keeps:
  assumes "list_all P (scim_users s)"
  shows "list_all P (scim_users (snd (delete_users e i psRemove s)))"
proof -
  have del: "\<And>s'. scim_users s' = scim_users s \<Longrightarrow> list_all P (scim_users (db_delete i s'))"
    using assms by (auto simp: db_delete_users list_all_iff)
  show ?thesis
    unfolding delete_users_def
    using assms del
    by (auto split: option.splits prod.splits dest!: execRemoveAdUser_users)
qed


section \<open>Rows written by an operation\<close>

lemma find_by_id_in:
  "find_by_id i s = Some row \<Longrightarrow> row \<in> set (scim_users s) \<and> row_id row = i"
  by (auto simp: find_by_id_def find_Some_iff)

lemma settled_written:
  "list_all (settled G s i) (scim_users s') \<Longrightarrow>
   list_all (\<lambda>r. r \<in> set (scim_users s) \<or> G r) (scim_users s')"
  by (auto simp: settled_def list_all_iff split: if_splits)

lemma unchanged_written:
  "scim_users s' = scim_users s \<Longrightarrow>
   list_all (\<lambda>r. r \<in> set (scim_users s) \<or> G r) (scim_users s')"
  by (simp add: list_all_iff)

lemma write_settles:
  assumes "\<And>r. row_id (f r) = row_id r \<and> G (f r)"
  shows "list_all (settled G s i) (update_where_id i f (scim_users s))"
  unfolding list_all_update_where_id
  using assms by (auto simp: list_all_iff settled_def)

lemma put_users_written:
  assumes persist: "\<And>row sam r x t. find_by_id i s = Some row \<Longrightarrow>
      put_sam_account_name row scimUser = Inr sam \<Longrightarrow>
      G (r\<lparr>scim_resource := x, sync_status := Pending, updated_at := t,
             sam_account_name := sam\<rparr>)"
    and err: "\<And>r x t. G r \<Longrightarrow> G (r\<lparr>sync_status := Error, last_error := x, updated_at := t\<rparr>)"
    and syn: "\<And>r t. G r \<Longrightarrow> G (r\<lparr>sync_status := Synced, last_error := None, updated_at := t\<rparr>)"
    and rfr: "\<And>r a t. G r \<Longrightarrow> G (r\<lparr>ad_resource := a, updated_at := t\<rparr>)"
  shows "list_all (\<lambda>r. r \<in> set (scim_users s) \<or> G r)
           (scim_users (snd (put_users e i scimUser psSet psGet s)))"
proof (cases "find_by_id i s")
  case None
  then show ?thesis by (simp add: put_users_def unchanged_written)
next
  case (Some row)
  show ?thesis
  proof (cases "put_persist e i row scimUser s")
    case (Inl x)
    with Some show ?thesis by (simp add: put_users_def unchanged_written)
  next
    case (Inr s1)
    then obtain sam where sam: "put_sam_account_name row scimUser = Inr sam"
      and upd: "db_update_sam i sam
         (\<lambda>r. r\<lparr>scim_resource :=
                   stringify_object (prop_set (spread_into [] (JObj scimUser)) ''id'' (JStr i)),
                 sync_status := Pending, updated_at := now e 0\<rparr>) s = Inr s1"
      by (auto simp: put_persist_def Let_def split: sum.splits)
    have "list_all (settled G s i) (scim_users s1)"
      unfolding db_update_sam_users [OF upd]
      by (rule write_settles) (simp add: persist [OF Some sam])
    then have "list_all (settled G s i)
        (scim_users (snd (put_sync e i row scimUser psSet psGet s1)))"
      by (rule put_sync_keeps) (auto simp: settled_def err syn rfr)
    then show ?thesis
      using Some Inr by (simp add: put_users_def settled_written)
  qed
qed

lemma patch_users_written:
  assumes persist: "\<And>r x t. G (r\<lparr>scim_resource := x, sync_status := Pending, updated_at := t\<rparr>)"
    and err: "\<And>r x t. G r \<Longrightarrow> G (r\<lparr>sync_status := Error, last_error := x, updated_at := t\<rparr>)"
    and syn: "\<And>r t. G r \<Longrightarrow> G (r\<lparr>sync_status := Synced, last_error := None, updated_at := t\<rparr>)"
    and rfr: "\<And>r a t. G r \<Longrightarrow> G (r\<lparr>ad_resource := a, updated_at := t\<rparr>)"
  shows "list_all (\<lambda>r. r \<in> set (scim_users s) \<or> G r)
           (scim_users (snd (patch_users e i patchBody psSet psGet s)))"
proof -
  have run: "list_all (\<lambda>r. r \<in> set (scim_users s) \<or> G r)
      (scim_users (snd (patch_sync e i row changed psSet psGet (patch_persist e i patched s))))"
    for row changed patched
  proof -
    have "list_all (settled G s i) (scim_users (patch_persist e i patched s))"
      unfolding patch_persist_def db_update_users
      by (rule write_settles) (simp add: persist)
    then have "list_all (settled G s i)
        (scim_users (snd (patch_sync e i row changed psSet psGet (patch_persist e i patched s))))"
      by (rule patch_sync_keeps) (auto simp: settled_def err syn rfr)
    then show ?thesis by (rule settled_written)
  qed
  show ?thesis
    unfolding patch_users_def
    using run by (auto simp: unchanged_written split: option.splits json.splits sum.splits)
qed

lemma delete_users_written:
  "list_all (\<lambda>r. r \<in> set (scim_users s) \<or> G r)
     (scim_users (snd (delete_users e i psRemove s)))"
  by (rule delete_users_keeps) (simp add: list_all_iff)

lemma db_insert_fresh:
  "db_insert row s = Inr s' \<Longrightarrow> \<not> list_ex (\<lambda>r. row_id r = row_id row) (scim_users s)"
  by (auto simp: db_insert_def list_ex_iff split: if_splits)

lemma post_persist_written:
  assumes new: "\<And>g x t. G \<lparr>row_id = userId, ad_object_guid = g,
      sam_account_name = Some (sam_of u), scim_resource = x, ad_resource = None,
      sync_status = Synced, last_error = None, created_at = t, updated_at = t\<rparr>"
    and rfr: "\<And>r a t. G r \<Longrightarrow> G (r\<lparr>ad_resource := a, updated_at := t\<rparr>)"
  shows "list_all (\<lambda>r. r \<in> set (scim_users s) \<or> G r)
           (scim_users (snd (post_persist e scimUser u userId psResult psGet s)))"
proof -
  let ?row = "\<lparr>row_id = userId, ad_object_guid = extractObjectGuid (parsed psResult),
      sam_account_name = Some (sam_of u),
      scim_resource =
        stringify_object (prop_set (spread_into [] (JObj scimUser)) ''id'' (JStr userId)),
      ad_resource = None, sync_status = Synced, last_error = None,
      created_at = now e 0, updated_at = now e 0\<rparr>"
  show ?thesis
  proof (cases "db_insert ?row s")
    case (Inl x)
    then show ?thesis by (simp add: post_persist_def Let_def unchanged_written)
  next
    case (Inr s2)
    from db_insert_users [OF Inr] have rows: "scim_users s2 = scim_users s @ [?row]" .
    have base: "list_all (settled G s userId) (scim_users s2)"
      using db_insert_fresh [OF Inr] new
      by (auto simp: rows settled_def list_all_iff list_ex_iff)
    have "list_all (settled G s userId)
        (scim_users (refreshAdResource g userId psGet t s2))" for g t
      by (rule refresh_keeps [OF base]) (auto simp: settled_def rfr)
    with base have "list_all (settled G s userId)
        (scim_users (snd (post_persist e scimUser u userId psResult psGet s)))"
      using Inr by (auto simp: post_persist_def Let_def split: option.splits)
    then show ?thesis by (rule settled_written)
  qed
qed

lemma post_users_written:
  assumes new: "\<And>u userId g x t. obj_get scimUser ''userName'' = JStr u \<Longrightarrow>
      G \<lparr>row_id = userId, ad_object_guid = g,
      sam_account_name = Some (sam_of u), scim_resource = x, ad_resource = None,
      sync_status = Synced, last_error = None, created_at = t, updated_at = t\<rparr>"
    and rfr: "\<And>r a t. G r \<Longrightarrow> G (r\<lparr>ad_resource := a, updated_at := t\<rparr>)"
  shows "list_all (\<lambda>r. r \<in> set (scim_users s) \<or> G r)
           (scim_users (snd (post_users e scimUser psNew psGet s)))"
proof -
  have persist: "list_all (\<lambda>r. r \<in> set (scim_users s) \<or> G r)
        (scim_users (snd (post_persist e scimUser u userId psResult psGet s1)))"
    if "scim_users s1 = scim_users s" and "obj_get scimUser ''userName'' = JStr u"
    for s1 u userId psResult
    using post_persist_written [of G userId u s1 e scimUser psResult psGet,
        OF new [OF that(2)] rfr] that(1)
    by simp
  have create: "list_all (\<lambda>r. r \<in> set (scim_users s) \<or> G r)
      (scim_users (snd (post_create e scimUser u psNew psGet s)))"
    if "obj_get scimUser ''userName'' = JStr u" for u
    unfolding post_create_def Let_def
    using persist [OF _ that]
    by (auto simp: unchanged_written split: sum.splits prod.splits dest!: execNewAdUser_users)
  show ?thesis
    unfolding post_users_def Let_def
    using create by (auto simp: unchanged_written split: json.splits option.splits)
qed

section \<open>Evaluation of the examples\<close>

lemmas handler_defs =
  post_users_def post_create_def post_persist_def new_user_id_def
  put_users_def put_persist_def put_sam_account_name_def put_sync_def set_ad_user_def
  finish_synced_def mark_error_def mark_synced_def strip_name_path_def
  patch_users_def patch_persist_def patch_sync_def
  delete_users_def refreshAdResource_def send_row_def
  execNewAdUser_def execSetAdUser_def execRemoveAdUser_def execGetAdUser_def
  executePowerShell_def audit_row_def sanitizeParams_def SENSITIVE_KEYS_def REDACTED_def
  scimToAdParams_def set_if_truthy_def obj_get_def spread_into_def assign_all_def
  prop_delete_def stringify_object_def substring0_def
  find_by_id_def find_by_sam_def db_insert_def db_update_def db_update_sam_def db_delete_def
  update_where_id_def identity_of_def sam_of_def
  send_error_def send_classified_def not_found_def no_identity_def formatError_def
  formatScimUser_def or_undefined_def scim_json_def
  mapPsErrorToScim_def toLowerCase_def lower_char_def
  SCIM_SCHEMA_USER_def SCIM_SCHEMA_ERROR_def Let_def

lemmas example_defs =
  example_env_def example_db_def empty_db_def alice_row_def orphan_row_def
  alice_resource_def run_ok_def run_failed_def created_guid_def

section \<open>Create is atomic on a failed directory command\<close>

lemma post_create_failed:
  assumes "exitCode psNew \<noteq> 0"
  shows "scim_users (snd (post_create e scimUser u psNew psGet s)) = scim_users s \<and>
         (powershell_executions (snd (post_create e scimUser u psNew psGet s)) =
            powershell_executions s \<or>
          fst (post_create e scimUser u psNew psGet s) = send_classified (stderr psNew))"
  unfolding post_create_def Let_def
  using assms
  by (auto split: sum.splits prod.splits dest!: execNewAdUser_users)

text \<open>
  C2. For every create request whose New-ADUser run exits nonzero, the cache is
  unchanged (no row is inserted), and the reply is the classified SCIM error of the
  run's stderr; the only other outcomes are those in which the command was never run,
  which leave the audit log as it was (a validation error, a duplicate, an exception
  before the run).
\<close>

theorem create_failure_leaves_cache:
  assumes "exitCode psNew \<noteq> 0"
  shows "scim_users (snd (post_users e scimUser psNew psGet s)) = scim_users s \<and>
         (powershell_executions (snd (post_users e scimUser psNew psGet s)) =
            powershell_executions s \<or>
          fst (post_users e scimUser psNew psGet s) = send_classified (stderr psNew))"
  unfolding post_users_def Let_def
  using post_create_failed [OF assms]
  by (auto split: json.splits option.splits)

theorem create_failure_leaves_cache_witness:
  "exitCode (run_failed ''New-ADUser : The specified account already exists'') \<noteq> 0 \<and>
   scim_users (snd (post_users example_env alice_resource
       (run_failed ''New-ADUser : The specified account already exists'') (run_ok JNull)
       example_db)) = scim_users example_db \<and>
   fst (post_users example_env alice_resource
       (run_failed ''New-ADUser : The specified account already exists'') (run_ok JNull)
       empty_db) =
     Reply 409 []
       (JObj [(''schemas'', JArr [JStr ''urn:ietf:params:scim:api:messages:2.0:Error'']),
              (''status'', JNum 409), (''scimType'', JStr ''uniqueness''),
              (''detail'', JStr ''New-ADUser : The specified account already exists'')]) \<and>
   scim_users (snd (post_users example_env alice_resource
       (run_failed ''New-ADUser : The specified account already exists'') (run_ok JNull)
       empty_db)) = []"
proof -
  have failed: "exitCode (run_failed ''New-ADUser : The specified account already exists'') \<noteq> 0"
    by (simp add: run_failed_def)
  have reply: "fst (post_users example_env alice_resource
       (run_failed ''New-ADUser : The specified account already exists'') (run_ok JNull)
       empty_db) =
     Reply 409 []
       (JObj [(''schemas'', JArr [JStr ''urn:ietf:params:scim:api:messages:2.0:Error'']),
              (''status'', JNum 409), (''scimType'', JStr ''uniqueness''),
              (''detail'', JStr ''New-ADUser : The specified account already exists'')])"
    by (simp add: handler_defs example_defs)
  have empty: "scim_users empty_db = []"
    by (simp add: empty_db_def)
  show ?thesis
    using failed reply empty
      create_failure_leaves_cache [OF failed, of example_env alice_resource "run_ok JNull"
        example_db, THEN conjunct1]
      create_failure_leaves_cache [OF failed, of example_env alice_resource "run_ok JNull"
        empty_db, THEN conjunct1]
    by simp
qed

section \<open>Synced rows carry no error\<close>

lemma written_preserves:
  "written_rows_consistent s s' \<Longrightarrow> synced_without_error s \<Longrightarrow> synced_without_error s'"
  by (auto simp: written_rows_consistent_def synced_without_error_def list_all_iff)

lemma post_users_consistent:
  "written_rows_consistent s (snd (post_users e scimUser psNew psGet s))"
  unfolding written_rows_consistent_def
  by (rule post_users_written) (auto simp: row_consistent_def)

lemma put_users_consistent:
  "written_rows_consistent s (snd (put_users e i scimUser psSet psGet s))"
  unfolding written_rows_consistent_def
  by (rule put_users_written) (auto simp: row_consistent_def)

lemma patch_users_consistent:
  "written_rows_consistent s (snd (patch_users e i patchBody psSet psGet s))"
  unfolding written_rows_consistent_def
  by (rule patch_users_written) (auto simp: row_consistent_def)

lemma delete_users_consistent:
  "written_rows_consistent s (snd (delete_users e i psRemove s))"
  unfolding written_rows_consistent_def
  by (rule delete_users_written)

text \<open>
  C3. Create, replace, patch and delete preserve the invariant that every cache row
  with sync_status synced has a null last_error. More precisely, every row an operation
  leaves in the cache either was there unchanged or satisfies the invariant: each
  write that sets sync_status to synced clears last_error with it, and the row that
  create inserts as synced has a null last_error.
\<close>

theorem synced_rows_without_error:
  "written_rows_consistent s (snd (post_users e newUser psNew psGet s)) \<and>
   written_rows_consistent s (snd (put_users e i scimUser psSet psGet s)) \<and>
   written_rows_consistent s (snd (patch_users e i patchBody psSet psGet s)) \<and>
   written_rows_consistent s (snd (delete_users e i psRemove s)) \<and>
   (synced_without_error s \<longrightarrow>
      synced_without_error (snd (post_users e newUser psNew psGet s)) \<and>
      synced_without_error (snd (put_users e i scimUser psSet psGet s)) \<and>
      synced_without_error (snd (patch_users e i patchBody psSet psGet s)) \<and>
      synced_without_error (snd (delete_users e i psRemove s)))"
  using post_users_consistent [of s e newUser psNew psGet]
    put_users_consistent [of s e i scimUser psSet psGet]
    patch_users_consistent [of s e i patchBody psSet psGet]
    delete_users_consistent [of s e i psRemove]
  by (auto intro: written_preserves)

theorem synced_rows_without_error_witness:
  "synced_without_error example_db \<and>
   synced_without_error (snd (put_users example_env ''abc'' alice_resource
        (run_ok JNull) (run_ok JNull) example_db)) \<and>
   map (\<lambda>r. (row_id r, sync_status r, last_error r))
     (scim_users (snd (put_users example_env ''abc'' alice_resource
        (run_ok JNull) (run_ok JNull) example_db))) =
     [(''abc'', Synced, None), (''u2'', Pending, None)] \<and>
   map (\<lambda>r. (row_id r, sync_status r, last_error r)) (scim_users example_db) =
     [(''abc'', Error, Some ''Access is denied.''), (''u2'', Pending, None)]"
proof -
  have before: "synced_without_error example_db"
    by (simp add: synced_without_error_def row_consistent_def example_defs)
  have after: "synced_without_error (snd (put_users example_env ''abc'' alice_resource
        (run_ok JNull) (run_ok JNull) example_db))"
    using synced_rows_without_error [of example_db example_env alice_resource "run_ok JNull"
        "run_ok JNull" "''abc''" alice_resource "run_ok JNull" "[]" "run_ok JNull"] before
    by blast
  have rows: "map (\<lambda>r. (row_id r, sync_status r, last_error r))
     (scim_users (snd (put_users example_env ''abc'' alice_resource
        (run_ok JNull) (run_ok JNull) example_db))) =
     [(''abc'', Synced, None), (''u2'', Pending, None)]"
    by (simp add: handler_defs example_defs)
  have start: "map (\<lambda>r. (row_id r, sync_status r, last_error r)) (scim_users example_db) =
     [(''abc'', Error, Some ''Access is denied.''), (''u2'', Pending, None)]"
    by (simp add: example_defs)
  from before after rows start show ?thesis by (intro conjI)
qed

section \<open>The derived sAMAccountName\<close>

lemma split_on_nonempty: "split_on c s \<noteq> []"
  by (induction s) (auto split: list.splits)

lemma first_part: "(case split_on c s of [] \<Rightarrow> [] | p # ps \<Rightarrow> p) = takeWhile (\<lambda>x. x \<noteq> c) s"
proof (induction s)
  case Nil
  then show ?case by simp
next
  case (Cons x xs)
  then show ?case
    using split_on_nonempty [of c xs] by (auto split: list.splits)
qed

lemma sam_of_takeWhile: "sam_of u = take 20 (takeWhile (\<lambda>c. c \<noteq> CHR ''@'') u)"
  by (simp add: sam_of_def substring0_def first_part)

lemma sam_of_well_formed: "length (sam_of u) \<le> 20 \<and> CHR ''@'' \<notin> set (sam_of u)"
proof -
  have "set (sam_of u) \<subseteq> set (takeWhile (\<lambda>c. c \<noteq> CHR ''@'') u)"
    unfolding sam_of_takeWhile by (rule set_take_subset)
  moreover have "CHR ''@'' \<notin> set (takeWhile (\<lambda>c. c \<noteq> CHR ''@'') u)"
    by (auto dest: set_takeWhileD)
  ultimately show ?thesis by (auto simp: sam_of_takeWhile)
qed

lemma post_users_sam:
  assumes "obj_get newUser ''userName'' = JStr u"
  shows "list_all (\<lambda>r. r \<in> set (scim_users s) \<or> sam_account_name r = Some (sam_of u))
           (scim_users (snd (post_users e newUser psNew psGet s)))"
  by (rule post_users_written) (use assms in auto)

lemma put_users_sam:
  assumes "obj_get scimUser ''userName'' = JStr u" and "u \<noteq> []"
  shows "list_all (\<lambda>r. r \<in> set (scim_users s) \<or> sam_account_name r = Some (sam_of u))
           (scim_users (snd (put_users e i scimUser psSet psGet s)))"
  by (rule put_users_written) (use assms in \<open>auto simp: put_sam_account_name_def\<close>)

lemma post_users_sam_well_formed:
  assumes "list_all sam_well_formed (scim_users s)"
  shows "list_all sam_well_formed (scim_users (snd (post_users e newUser psNew psGet s)))"
proof -
  have "list_all (\<lambda>r. r \<in> set (scim_users s) \<or> sam_well_formed r)
           (scim_users (snd (post_users e newUser psNew psGet s)))"
    by (rule post_users_written) (auto simp: sam_well_formed_def sam_of_well_formed)
  with assms show ?thesis by (auto simp: list_all_iff)
qed

lemma put_users_sam_well_formed:
  assumes "list_all sam_well_formed (scim_users s)"
  shows "list_all sam_well_formed (scim_users (snd (put_users e i scimUser psSet psGet s)))"
proof -
  have "list_all (\<lambda>r. r \<in> set (scim_users s) \<or> sam_well_formed r)
           (scim_users (snd (put_users e i scimUser psSet psGet s)))"
  proof (rule put_users_written)
    fix row sam r x t
    assume found: "find_by_id i s = Some row"
      and sam: "put_sam_account_name row scimUser = Inr sam"
    from find_by_id_in [OF found] assms have "sam_well_formed row"
      by (auto simp: list_all_iff)
    with sam show "sam_well_formed (r\<lparr>scim_resource := x, sync_status := Pending,
        updated_at := t, sam_account_name := sam\<rparr>)"
      by (auto simp: put_sam_account_name_def Let_def sam_well_formed_def sam_of_well_formed
          split: if_splits json.splits)
  qed (auto simp: sam_well_formed_def)
  with assms show ?thesis by (auto simp: list_all_iff)
qed

text \<open>
  C7. The sAMAccountName that create and replace persist for a userName is the part
  of the userName before the first \<open>@\<close>, cut to 20 characters: every row that create
  writes carries it, and so does every row that a replace with a userName writes. It
  has at most 20 characters and no \<open>@\<close>, so both operations keep every persisted
  sam_account_name that short and free of \<open>@\<close>; and 25 letters \<open>a\<close> before \<open>@b\<close>
  give the 20 letters \<open>a\<close>.
\<close>

theorem sam_account_name_derived:
  "sam_of u = take 20 (takeWhile (\<lambda>c. c \<noteq> CHR ''@'') u) \<and>
   length (sam_of u) \<le> 20 \<and> CHR ''@'' \<notin> set (sam_of u) \<and>
   sam_of ''aaaaaaaaaaaaaaaaaaaaaaaaa@b'' = ''aaaaaaaaaaaaaaaaaaaa'' \<and>
   (obj_get newUser ''userName'' = JStr u \<longrightarrow>
      list_all (\<lambda>r. r \<in> set (scim_users s) \<or> sam_account_name r = Some (sam_of u))
        (scim_users (snd (post_users e newUser psNew psGet s)))) \<and>
   (obj_get scimUser ''userName'' = JStr u \<and> u \<noteq> [] \<longrightarrow>
      list_all (\<lambda>r. r \<in> set (scim_users s) \<or> sam_account_name r = Some (sam_of u))
        (scim_users (snd (put_users e i scimUser psSet psGet s)))) \<and>
   (list_all sam_well_formed (scim_users s) \<longrightarrow>
      list_all sam_well_formed (scim_users (snd (post_users e newUser psNew psGet s))) \<and>
      list_all sam_well_formed (scim_users (snd (put_users e i scimUser psSet psGet s))))"
proof (intro conjI impI)
  show "sam_of ''aaaaaaaaaaaaaaaaaaaaaaaaa@b'' = ''aaaaaaaaaaaaaaaaaaaa''"
    by (simp add: sam_of_def substring0_def)
qed (auto simp: sam_of_takeWhile [symmetric] sam_of_well_formed
      intro: post_users_sam put_users_sam post_users_sam_well_formed put_users_sam_well_formed)


theorem sam_account_name_derived_witness:
  "obj_get alice_resource ''userName'' = JStr ''alice@ex.com'' \<and>
   list_all sam_well_formed (scim_users example_db) \<and>
   sam_of ''alice@ex.com'' = ''alice'' \<and>
   list_all (\<lambda>r. r \<in> set (scim_users empty_db) \<or> sam_account_name r = Some ''alice'')
     (scim_users (snd (post_users example_env alice_resource (run_ok created_guid)
        (run_ok JNull) empty_db))) \<and>
   map sam_account_name
     (scim_users (snd (post_users example_env alice_resource (run_ok created_guid)
        (run_ok JNull) empty_db))) = [Some ''alice''] \<and>
   list_all sam_well_formed
     (scim_users (snd (put_users example_env ''abc'' alice_resource (run_ok JNull)
        (run_ok JNull) example_db)))"
proof -
  have name: "obj_get alice_resource ''userName'' = JStr ''alice@ex.com''"
    by (simp add: obj_get_def alice_resource_def)
  have wf: "list_all sam_well_formed (scim_users example_db)"
    by (simp add: sam_well_formed_def example_defs)
  have sam: "sam_of ''alice@ex.com'' = ''alice''"
    by (simp add: sam_of_def substring0_def)
  note t = sam_account_name_derived
    [of "''alice@ex.com''" alice_resource empty_db example_env "run_ok created_guid"
        "run_ok JNull" alice_resource "''abc''" "run_ok JNull"]
  note t' = sam_account_name_derived
    [of "''alice@ex.com''" alice_resource example_db example_env "run_ok created_guid"
        "run_ok JNull" alice_resource "''abc''" "run_ok JNull"]
  have created: "list_all
      (\<lambda>r. r \<in> set (scim_users empty_db) \<or> sam_account_name r = Some ''alice'')
      (scim_users (snd (post_users example_env alice_resource (run_ok created_guid)
        (run_ok JNull) empty_db)))"
    using t name sam by simp
  have rows: "map sam_account_name
     (scim_users (snd (post_users example_env alice_resource (run_ok created_guid)
        (run_ok JNull) empty_db))) = [Some ''alice'']"
    by (simp add: handler_defs example_defs)
  have kept: "list_all sam_well_formed
     (scim_users (snd (put_users example_env ''abc'' alice_resource (run_ok JNull)
        (run_ok JNull) example_db)))"
    using t' wf by blast
  from name wf sam created rows kept show ?thesis by (intro conjI)
qed

section \<open>Replace and patch on a row without identity\<close>

lemma stored_pending_update:
  assumes "find_by_id i s = Some row"
    and "\<And>r. row_id (f r) = row_id r \<and> sync_status (f r) = Pending \<and>
           scim_resource (f r) = stringify_object (prop_set (spread_into [] res) ''id'' (JStr i))"
  shows "stored_pending (s\<lparr>scim_users := update_where_id i f (scim_users s)\<rparr>) i res"
proof -
  from find_by_id_in [OF assms(1)] have "row \<in> set (scim_users s)" and "row_id row = i"
    by simp_all
  then have "f row \<in> set (update_where_id i f (scim_users s))"
    by (force simp: update_where_id_def)
  then have "list_ex (\<lambda>r. row_id r = i) (update_where_id i f (scim_users s))"
    using assms(2) \<open>row_id row = i\<close> by (auto simp: list_ex_iff)
  moreover have "list_all (\<lambda>r. row_id r \<noteq> i \<or>
       (scim_resource r = stringify_object (prop_set (spread_into [] res) ''id'' (JStr i)) \<and>
        sync_status r = Pending)) (update_where_id i f (scim_users s))"
    unfolding list_all_update_where_id
    using assms(2) by (auto simp: list_all_iff)
  ultimately show ?thesis by (simp add: stored_pending_def)
qed

lemma stored_pending_cong:
  "scim_users s' = scim_users s \<Longrightarrow> stored_pending s' i res = stored_pending s i res"
  by (simp add: stored_pending_def)

text \<open>
  C10. On an existing row that has neither an ad_object_guid nor a sam_account_name,
  replace and patch answer with the 500 error, and they do so after the cache write:
  the state they leave holds the new SCIM view of the request (the replaced resource,
  the patched resource) with sync_status pending; the write is not undone.
\<close>

theorem no_identity_keeps_pending_write:
  assumes "find_by_id i s = Some row"
    and "ad_object_guid row = None" and "sam_account_name row = None"
  shows "(put_persist e i row scimUser s = Inr s1 \<longrightarrow>
            put_users e i scimUser psSet psGet s = (no_identity, s1) \<and>
            stored_pending s1 i (JObj scimUser)) \<and>
         (obj_get patchBody ''Operations'' = JArr ops \<and> ops \<noteq> [] \<and>
          run_patch (scim_resource row) ops = Inr (patched, changed) \<longrightarrow>
            patch_users e i patchBody psSet psGet s =
              (no_identity, patch_persist e i patched s) \<and>
            stored_pending (patch_persist e i patched s) i patched)"
proof (intro conjI impI)
  have ident: "identity_of row = None"
    using assms(2,3) by (simp add: identity_of_def)
  {
    assume persist: "put_persist e i row scimUser s = Inr s1"
    show "put_users e i scimUser psSet psGet s = (no_identity, s1)"
      using assms(1) persist ident by (simp add: put_users_def put_sync_def)
    from persist obtain sam where
      upd: "db_update_sam i sam
         (\<lambda>r. r\<lparr>scim_resource :=
                   stringify_object (prop_set (spread_into [] (JObj scimUser)) ''id'' (JStr i)),
                 sync_status := Pending, updated_at := now e 0\<rparr>) s = Inr s1"
      by (auto simp: put_persist_def Let_def split: sum.splits)
    have "stored_pending
        (s\<lparr>scim_users := update_where_id i
             (\<lambda>r. r\<lparr>scim_resource :=
                   stringify_object (prop_set (spread_into [] (JObj scimUser)) ''id'' (JStr i)),
                 sync_status := Pending, updated_at := now e 0,
                 sam_account_name := sam\<rparr>) (scim_users s)\<rparr>) i (JObj scimUser)"
      by (rule stored_pending_update [OF assms(1)]) simp
    then show "stored_pending s1 i (JObj scimUser)"
      using db_update_sam_users [OF upd] by (simp add: stored_pending_def)
  }
  {
    assume patch: "obj_get patchBody ''Operations'' = JArr ops \<and> ops \<noteq> [] \<and>
          run_patch (scim_resource row) ops = Inr (patched, changed)"
    show "patch_users e i patchBody psSet psGet s = (no_identity, patch_persist e i patched s)"
      using assms(1) patch ident by (simp add: patch_users_def patch_sync_def)
    show "stored_pending (patch_persist e i patched s) i patched"
      unfolding patch_persist_def db_update_def
      by (rule stored_pending_update [OF assms(1)]) simp
  }
qed


section \<open>The patch applier on the store\<close>

lemmas patch_defs =
  run_patch_def decode_operation_def applyPatchOps_def applyOp_def applyPath_def
  apply_simple_def apply_dotted_def apply_multi_valued_def
  parse_mv_path_def parse_eq_filter_def matchesFilter_def buildItemFromFilter_def
  array_elems_def get_member_def set_member_def delete_member_def v_entries_def
  obj_fields_def obj_read_def obj_write_def obj_remove_def cell_at_def new_cell_def
  heap_json_def seq_member_def index_of_key_def is_digit_def is_word_def is_space_def trim_def
  dquote_def indexed_def int_dec_def digit_char_def work_filter_def work_email_path_def
  Let_def

lemma cell_at_append_old: "a < length h \<Longrightarrow> cell_at (h @ ext) a = cell_at h a"
  by (simp add: cell_at_def nth_append)

lemma add_work_email_heap:
  assumes res: "cell_at h r = Some (Obj kvs0)"
    and em: "prop_lookup kvs0 ''emails'' = Some (VRef a)"
    and arr: "cell_at h a = Some (Arr [])"
  shows "applyPatchOps h r [add_work_email] =
     Inr (h @ [Obj (prop_set (own_entries kvs0) ''emails'' (VRef (length h + 3))),
               Obj [(''emails'', VRef (length h + 3))],
               Obj [(''type'', VStr ''work''), (''value'', VStr ''a@b'')],
               Arr [VRef (length h + 2)]],
          length h, length h + 1)"
proof -
  from res have r: "r < length h" by (auto simp: cell_at_def split: if_splits)
  from arr have a: "a < length h" by (auto simp: cell_at_def split: if_splits)
  have old: "cell_at (h @ ext) a = Some (Arr [])" "cell_at (h @ ext) r = Some (Obj kvs0)" for ext
    using res arr r a by (simp_all add: cell_at_append_old)
  have new: "cell_at (h @ c # ext) (length h) = Some c"
    "cell_at (h @ c # d # ext) (Suc (length h)) = Some d" for c d ext
    by (simp_all add: cell_at_def nth_append)
  have path: "parse_mv_path work_email_path =
      Some (''emails'', work_filter, Some ''value'')"
    by (simp add: parse_mv_path_def work_email_path_def work_filter_def dquote_def is_word_def)
  have flt: "parse_eq_filter work_filter =
      Some (''type'', ''work'')"
    by (simp add: parse_eq_filter_def work_filter_def dquote_def is_word_def is_space_def trim_def)
  have dot: "str_includes work_email_path ''.''" and ne: "work_email_path \<noteq> []"
    by (simp_all add: work_email_path_def work_filter_def dquote_def)
  have multi: "apply_multi_valued
      (h @ [Obj (own_entries kvs0), Obj []]) (length h) ''emails''
      work_filter (Some ''value'') ''add'' (VStr ''a@b'') =
     Inr (h @ [Obj (prop_set (own_entries kvs0) ''emails'' (VRef (length h + 3))),
               Obj [],
               Obj [(''type'', VStr ''work''), (''value'', VStr ''a@b'')],
               Arr [VRef (length h + 2)]], ''emails'')"
    unfolding apply_multi_valued_def
    using em
    by (simp add: obj_read_def obj_fields_def new old array_elems_def flt
        buildItemFromFilter_def new_cell_def obj_write_def prop_lookup_own_entries
        Let_def list_update_append numeral_3_eq_3 numeral_2_eq_2)
  show ?thesis
    unfolding applyPatchOps_def
    using dot ne
    by (simp add: new_cell_def v_entries_def res assign_all_own_entries applyOp_def
        add_work_email_def toLowerCase_def lower_char_def applyPath_def path multi
        obj_write_def obj_read_def obj_fields_def new prop_lookup_set
        Let_def list_update_append numeral_3_eq_3 numeral_2_eq_2)
qed

lemma alloc_extends:
  "alloc x h = (v, h1) \<Longrightarrow> prefix h h1"
  "alloc_list xs h = (vs, h2) \<Longrightarrow> prefix h h2"
  "alloc_fields kvs h = (fs, h3) \<Longrightarrow> prefix h h3"
proof (induction x h and xs h and kvs h arbitrary: v h1 and vs h2 and fs h3
    rule: alloc_alloc_list_alloc_fields.induct)
  case (6 xs h)
  then show ?case by (auto split: prod.splits intro: prefix_order.trans)
next
  case (7 kvs h)
  then show ?case by (auto split: prod.splits intro: prefix_order.trans)
next
  case (9 x xs h)
  then show ?case by (auto split: prod.splits intro: prefix_order.trans)
next
  case (11 k x kvs h)
  then show ?case by (auto split: prod.splits intro: prefix_order.trans)
qed auto

lemma cell_at_prefix: "prefix h h' \<Longrightarrow> cell_at h a = Some c \<Longrightarrow> cell_at h' a = Some c"
  by (auto simp: prefix_def cell_at_def nth_append split: if_splits)

lemma alloc_fields_empty_array:
  "alloc_fields kvs h = (fs, h') \<Longrightarrow> prop_lookup kvs k = Some (JArr []) \<Longrightarrow>
   \<exists>a. prop_lookup fs k = Some (VRef a) \<and> cell_at h' a = Some (Arr [])"
proof (induction kvs arbitrary: h fs h')
  case Nil
  then show ?case by simp
next
  case (Cons kv kvs)
  obtain k' x where kv: "kv = (k', x)" by (cases kv)
  from Cons.prems(1) obtain v h1 fs1 where
    x: "alloc x h = (v, h1)" and rest: "alloc_fields kvs h1 = (fs1, h')"
    and fs: "fs = (k', v) # fs1"
    by (auto simp: kv split: prod.splits)
  show ?case
  proof (cases "k' = k")
    case True
    with Cons.prems(2) have "x = JArr []" by (simp add: kv)
    with x have v: "v = VRef (length h)" and h1: "h1 = h @ [Arr []]" by auto
    have "cell_at h1 (length h) = Some (Arr [])" by (simp add: h1 cell_at_def)
    with alloc_extends(3) [OF rest] have "cell_at h' (length h) = Some (Arr [])"
      by (rule cell_at_prefix)
    with True show ?thesis by (auto simp: fs v)
  next
    case False
    with Cons.prems(2) have "prop_lookup kvs k = Some (JArr [])" by (simp add: kv)
    from Cons.IH [OF rest this] False show ?thesis by (auto simp: fs)
  qed
qed

lemma prop_lookup_map_snd:
  "prop_lookup (map (\<lambda>kv. (fst kv, g (snd kv))) kvs) k = map_option g (prop_lookup kvs k)"
  by (induction kvs) auto

lemma work_email_params:
  "scimToAdParams [(''emails'', work_email)] None =
     Inr [(''EmailAddress'', JStr ''a@b''), (''Name'', JUndef)]"
  by (simp add: scimToAdParams_def work_email_def obj_get_def set_if_truthy_def Let_def)

lemma add_work_email_read_back:
  assumes h'_def: "h' = h @ [Obj (prop_set (own_entries kvs0) ''emails'' (VRef (length h + 3))),
               Obj [(''emails'', VRef (length h + 3))],
               Obj [(''type'', VStr ''work''), (''value'', VStr ''a@b'')],
               Arr [VRef (length h + 2)]]"
  shows "heap_json h' (obj_read h' (length h) ''emails'') = work_email"
    and "heap_json h' (VRef (length h + 1)) = JObj [(''emails'', work_email)]"
    and "\<exists>patched. heap_json h' (VRef (length h)) = JObj patched \<and>
           obj_get patched ''emails'' = work_email"
proof -
  have len: "length h' = Suc (Suc (Suc (Suc (length h))))" by (simp add: h'_def)
  have c0: "cell_at h' (length h) =
      Some (Obj (prop_set (own_entries kvs0) ''emails'' (VRef (Suc (Suc (Suc (length h)))))))"
    and c1: "cell_at h' (Suc (length h)) =
      Some (Obj [(''emails'', VRef (Suc (Suc (Suc (length h)))))])"
    and c2: "cell_at h' (Suc (Suc (length h))) =
      Some (Obj [(''type'', VStr ''work''), (''value'', VStr ''a@b'')])"
    and c3: "cell_at h' (Suc (Suc (Suc (length h)))) = Some (Arr [VRef (Suc (Suc (length h)))])"
    by (simp_all add: h'_def cell_at_def nth_append numeral_3_eq_3 numeral_2_eq_2)
  have arr: "reify (Suc (Suc n)) h' (VRef (Suc (Suc (Suc (length h))))) = work_email" for n
    by (simp add: c2 c3 work_email_def)
  have fuel: "reify (length h') h' v = reify (Suc (Suc (Suc (Suc (length h))))) h' v" for v
    by (simp only: len)
  show "heap_json h' (obj_read h' (length h) ''emails'') = work_email"
    unfolding heap_json_def fuel obj_read_def obj_fields_def c0
    by (simp add: prop_lookup_set c2 c3 work_email_def)
  show "heap_json h' (VRef (length h + 1)) = JObj [(''emails'', work_email)]"
    unfolding heap_json_def fuel
    by (simp add: c1 c2 c3 work_email_def)
  show "\<exists>patched. heap_json h' (VRef (length h)) = JObj patched \<and>
           obj_get patched ''emails'' = work_email"
    unfolding heap_json_def fuel
    by (simp add: c0 c2 c3 obj_get_def prop_lookup_map_snd prop_lookup_set work_email_def)
qed

lemma decode_add_work_email:
  "decode_operations [add_work_email_json] h = Inr ([add_work_email], h)"
  by (simp add: decode_operation_def add_work_email_json_def add_work_email_def
      obj_get_def work_email_path_def work_filter_def dquote_def)

lemma obj_get_Some: "obj_get obj k = JArr xs \<Longrightarrow> prop_lookup obj k = Some (JArr xs)"
  by (auto simp: obj_get_def split: option.splits)

lemma run_patch_add_work_email:
  assumes "obj_get resource ''emails'' = JArr []"
  shows "\<exists>patched. run_patch resource [add_work_email_json] =
            Inr (JObj patched, [(''emails'', work_email)]) \<and>
          obj_get patched ''emails'' = work_email"
proof -
  obtain fs h0 where al: "alloc_fields resource [] = (fs, h0)"
    by (cases "alloc_fields resource []")
  from alloc_fields_empty_array [OF al obj_get_Some [OF assms]]
  obtain a where fa: "prop_lookup fs ''emails'' = Some (VRef a)"
    and ca: "cell_at h0 a = Some (Arr [])" by blast
  define h where "h = h0 @ [Obj fs]"
  define h' where "h' = h @ [Obj (prop_set (own_entries fs) ''emails'' (VRef (length h + 3))),
               Obj [(''emails'', VRef (length h + 3))],
               Obj [(''type'', VStr ''work''), (''value'', VStr ''a@b'')],
               Arr [VRef (length h + 2)]]"
  have res: "cell_at h (length h0) = Some (Obj fs)" by (simp add: cell_at_def h_def)
  have arr: "cell_at h a = Some (Arr [])"
    using ca by (auto simp: cell_at_def nth_append h_def split: if_splits)
  have ap: "applyPatchOps h (length h0) [add_work_email] = Inr (h', length h, length h + 1)"
    unfolding h'_def by (rule add_work_email_heap [OF res fa arr])
  note rb = add_work_email_read_back [OF h'_def]
  from rb(3) obtain patched where
    p: "heap_json h' (VRef (length h)) = JObj patched"
    and e: "obj_get patched ''emails'' = work_email" by blast
  have "run_patch resource [add_work_email_json] = Inr (JObj patched, [(''emails'', work_email)])"
    unfolding run_patch_def al prod.case h_def [symmetric] decode_add_work_email sum.case ap
      p rb(2) json.case
    by (rule refl)
  with e show ?thesis by blast
qed

text \<open>
  C9. The operation add with path \<open>emails[type eq "work"].value\<close> and value
  \<open>a@b\<close>, applied to a resource whose emails list is empty, finds no element,
  builds \<open>{type: "work"}\<close> from the filter, sets its value and appends it: the
  updated resource's emails are \<open>[{type: "work", value: "a@b"}]\<close>, changedFields
  holds exactly the emails key with that list, and mapping changedFields to directory
  parameters gives EmailAddress \<open>a@b\<close>. This holds for a resource anywhere in a
  store, and for every stored resource the patch handler parses.
\<close>

theorem add_work_email_to_empty_emails:
  "(cell_at h r = Some (Obj kvs0) \<and> prop_lookup kvs0 ''emails'' = Some (VRef a) \<and>
    cell_at h a = Some (Arr []) \<longrightarrow>
      (\<exists>h' updated changedFields.
          applyPatchOps h r [add_work_email] = Inr (h', updated, changedFields) \<and>
          heap_json h' (obj_read h' updated ''emails'') = work_email \<and>
          heap_json h' (VRef changedFields) = JObj [(''emails'', work_email)])) \<and>
   (obj_get resource ''emails'' = JArr [] \<longrightarrow>
      (\<exists>patched. run_patch resource [add_work_email_json] =
            Inr (JObj patched, [(''emails'', work_email)]) \<and>
          obj_get patched ''emails'' = work_email)) \<and>
   scimToAdParams [(''emails'', work_email)] None =
     Inr [(''EmailAddress'', JStr ''a@b''), (''Name'', JUndef)] \<and>
   strip_name_path [(''EmailAddress'', JStr ''a@b''), (''Name'', JUndef)] =
     [(''EmailAddress'', JStr ''a@b'')]"
proof (intro conjI impI)
  assume "cell_at h r = Some (Obj kvs0) \<and> prop_lookup kvs0 ''emails'' = Some (VRef a) \<and>
    cell_at h a = Some (Arr [])"
  then have res: "cell_at h r = Some (Obj kvs0)"
    and em: "prop_lookup kvs0 ''emails'' = Some (VRef a)"
    and arr: "cell_at h a = Some (Arr [])" by simp_all
  note ap = add_work_email_heap [OF res em arr]
  note rb = add_work_email_read_back [OF refl, of h kvs0]
  from ap rb(1) rb(2)
  show "\<exists>h' updated changedFields.
          applyPatchOps h r [add_work_email] = Inr (h', updated, changedFields) \<and>
          heap_json h' (obj_read h' updated ''emails'') = work_email \<and>
          heap_json h' (VRef changedFields) = JObj [(''emails'', work_email)]"
    by blast
next
  assume "obj_get resource ''emails'' = JArr []"
  then show "\<exists>patched. run_patch resource [add_work_email_json] =
            Inr (JObj patched, [(''emails'', work_email)]) \<and>
          obj_get patched ''emails'' = work_email"
    by (rule run_patch_add_work_email)
next
  show "scimToAdParams [(''emails'', work_email)] None =
     Inr [(''EmailAddress'', JStr ''a@b''), (''Name'', JUndef)]"
    by (rule work_email_params)
  show "strip_name_path [(''EmailAddress'', JStr ''a@b''), (''Name'', JUndef)] =
     [(''EmailAddress'', JStr ''a@b'')]"
    by (simp add: strip_name_path_def prop_delete_def)
qed

theorem add_work_email_to_empty_emails_witness:
  "obj_get [(''userName'', JStr ''alice@ex.com''), (''emails'', JArr [])] ''emails'' = JArr [] \<and>
   run_patch [(''userName'', JStr ''alice@ex.com''), (''emails'', JArr [])]
       [add_work_email_json] =
     Inr (JObj [(''userName'', JStr ''alice@ex.com''), (''emails'', work_email)],
          [(''emails'', work_email)])"
proof -
  have e: "obj_get [(''userName'', JStr ''alice@ex.com''), (''emails'', JArr [])] ''emails'' =
      JArr []"
    by (simp add: obj_get_def)
  from add_work_email_to_empty_emails
    [of "[]" 0 "[]" 0 "[(''userName'', JStr ''alice@ex.com''), (''emails'', JArr [])]",
      THEN conjunct2, THEN conjunct1, THEN mp, OF e]
  obtain patched where
    r: "run_patch [(''userName'', JStr ''alice@ex.com''), (''emails'', JArr [])]
          [add_work_email_json] = Inr (JObj patched, [(''emails'', work_email)])"
    by blast
  have "run_patch [(''userName'', JStr ''alice@ex.com''), (''emails'', JArr [])]
       [add_work_email_json] =
     Inr (JObj [(''userName'', JStr ''alice@ex.com''), (''emails'', work_email)],
          [(''emails'', work_email)])"
    by (simp add: patch_defs add_work_email_json_def work_email_def obj_get_def
        toLowerCase_def lower_char_def prop_delete_def assign_all_def)
  with e show ?thesis by simp
qed

section \<open>Sharing between the patched and the original resource\<close>

text \<open>
  C5 (the code departs from it). \<open>applyPatchOps\<close> copies the members of the
  resource into a new object, but a nested object or list element is shared between
  the copy and the original, and a dotted path or a multi-valued path that finds its
  element assigns into the shared cell. On the resource \<open>{name: {givenName: "A"}}\<close>
  the operation replace \<open>name.givenName\<close> \<open>B\<close> leaves the original resource as
  \<open>{name: {givenName: "B"}}\<close>; on \<open>{emails: [{type: "work", value: "old@b"}]}\<close>
  the operation replace \<open>emails[type eq "work"].value\<close> leaves the original with
  the value \<open>a@b\<close>.
\<close>

theorem applyPatchOps_writes_into_original:
  "alloc named_resource [] =
     (VRef 1, [Obj [(''givenName'', VStr ''A'')], Obj [(''name'', VRef 0)]]) \<and>
   applyPatchOps [Obj [(''givenName'', VStr ''A'')], Obj [(''name'', VRef 0)]] 1
       [replace_given_name] =
     Inr ([Obj [(''givenName'', VStr ''B'')], Obj [(''name'', VRef 0)],
           Obj [(''name'', VRef 0)], Obj [(''name'', VRef 0)]], 2, 3) \<and>
   heap_json [Obj [(''givenName'', VStr ''A'')], Obj [(''name'', VRef 0)]] (VRef 1) =
     JObj [(''name'', JObj [(''givenName'', JStr ''A'')])] \<and>
   heap_json [Obj [(''givenName'', VStr ''B'')], Obj [(''name'', VRef 0)],
              Obj [(''name'', VRef 0)], Obj [(''name'', VRef 0)]] (VRef 1) =
     JObj [(''name'', JObj [(''givenName'', JStr ''B'')])] \<and>
   alloc mailed_resource [] =
     (VRef 2, [Obj [(''type'', VStr ''work''), (''value'', VStr ''old@b'')], Arr [VRef 0],
               Obj [(''emails'', VRef 1)]]) \<and>
   applyPatchOps [Obj [(''type'', VStr ''work''), (''value'', VStr ''old@b'')], Arr [VRef 0],
                  Obj [(''emails'', VRef 1)]] 2 [replace_work_email] =
     Inr ([Obj [(''type'', VStr ''work''), (''value'', VStr ''a@b'')], Arr [VRef 0],
           Obj [(''emails'', VRef 1)], Obj [(''emails'', VRef 1)],
           Obj [(''emails'', VRef 1)]], 3, 4) \<and>
   heap_json [Obj [(''type'', VStr ''work''), (''value'', VStr ''a@b'')], Arr [VRef 0],
           Obj [(''emails'', VRef 1)], Obj [(''emails'', VRef 1)],
           Obj [(''emails'', VRef 1)]] (VRef 2) =
     JObj [(''emails'', JArr [JObj [(''type'', JStr ''work''), (''value'', JStr ''a@b'')]])]"
  by (simp add: patch_defs named_resource_def mailed_resource_def replace_given_name_def
      replace_work_email_def toLowerCase_def lower_char_def prop_delete_def assign_all_def)


section \<open>Round trip of the attribute mapper\<close>

lemma obj_get_set: "obj_get (prop_set obj k v) k' = (if k' = k then v else obj_get obj k')"
  by (simp add: obj_get_def prop_lookup_set)

lemma obj_get_set_if_truthy:
  "obj_get (set_if_truthy obj k v) k' = (if k' = k \<and> truthy v then v else obj_get obj k')"
  by (simp add: set_if_truthy_def obj_get_set)

lemma obj_get_own_entries: "obj_get (own_entries obj) k = obj_get obj k"
  by (simp add: obj_get_def prop_lookup_own_entries)

lemma spread_object: "spread_into [] (JObj obj) = own_entries obj"
  by (simp add: spread_into_def assign_all_own_entries)

lemma obj_get_Nil: "obj_get [] k = JUndef"
  by (simp add: obj_get_def)

lemma scimToAdParams_steps:
  "scimToAdParams u ou =
     (case user_name_params (obj_get u ''userName'') of
        Inl e \<Rightarrow> Inl e
      | Inr p1 \<Rightarrow>
          (case email_of (obj_get u ''emails'') of
             Inl e \<Rightarrow> Inl e
           | Inr ev \<Rightarrow> Inr (rest_params u ou p1 ev)))"
  by (simp add: scimToAdParams_def user_name_params_def rest_params_def Let_def
      split: sum.splits)

lemma user_name_params_lookup:
  assumes "user_name_params v = Inr p1"
  shows "obj_get p1 ''SamAccountName'' = (if truthy v then v else JUndef)"
    and "k \<noteq> ''SamAccountName'' \<Longrightarrow> k \<noteq> ''UserPrincipalName'' \<Longrightarrow> obj_get p1 k = JUndef"
  using assms
  by (auto simp: user_name_params_def Let_def obj_get_def
      split: if_splits sum.splits)

lemma active_lookup:
  "obj_get (case a of JBool b \<Rightarrow> prop_set p ''Enabled'' (JBool b) | _ \<Rightarrow> p) k =
     (if k = ''Enabled'' \<and> (\<exists>b. a = JBool b) then a else obj_get p k)"
  by (cases a) (auto simp: obj_get_set)

lemma path_lookup:
  "k \<noteq> ''Path'' \<Longrightarrow>
   obj_get (case ou of None \<Rightarrow> p | Some x \<Rightarrow> if x \<noteq> [] then prop_set p ''Path'' (JStr x) else p) k
     = obj_get p k"
  by (cases ou) (auto simp: obj_get_set)

lemma rest_params_lookup:
  assumes p1: "obj_get p1 ''SamAccountName'' = sam"
    and other: "\<And>k. k \<noteq> ''SamAccountName'' \<Longrightarrow> k \<noteq> ''UserPrincipalName'' \<Longrightarrow> obj_get p1 k = JUndef"
  shows "obj_get (rest_params u ou p1 ev) ''SamAccountName'' = sam"
    and "obj_get (rest_params u ou p1 ev) ''DisplayName'' =
           (if truthy (obj_get u ''displayName'') then obj_get u ''displayName'' else JUndef)"
    and "obj_get (rest_params u ou p1 ev) ''GivenName'' =
           (let n = obj_get u ''name''; g = (if nullish n then JUndef else member n ''givenName'')
            in if truthy g then g else JUndef)"
    and "obj_get (rest_params u ou p1 ev) ''Surname'' =
           (let n = obj_get u ''name''; f = (if nullish n then JUndef else member n ''familyName'')
            in if truthy f then f else JUndef)"
    and "obj_get (rest_params u ou p1 ev) ''EmailAddress'' = (if truthy ev then ev else JUndef)"
    and "obj_get (rest_params u ou p1 ev) ''Enabled'' =
           (if \<exists>b. obj_get u ''active'' = JBool b then obj_get u ''active'' else JUndef)"
  unfolding rest_params_def Let_def
  by (simp_all add: path_lookup obj_get_set obj_get_set_if_truthy active_lookup p1 other)


lemma email_of_merged:
  "truthy ev \<Longrightarrow>
   email_of (JArr [JObj [(''value'', ev), (''type'', JStr ''work''), (''primary'', JBool True)]])
     = Inr ev"
  by (simp add: obj_get_def)

lemma member_truthy_object: "truthy (member v k) \<Longrightarrow> \<exists>kvs. v = JObj kvs"
  by (cases v) auto

lemma enabled_lookup:
  "obj_get (case a of JBool b \<Rightarrow> prop_set p ''active'' (JBool b) | _ \<Rightarrow> p) k =
     (if k = ''active'' \<and> (\<exists>b. a = JBool b) then a else obj_get p k)"
  by (cases a) (auto simp: obj_get_set)

text \<open>What \<open>mergeAdIntoScim\<close> leaves under each key it manages.\<close>

lemma mergeAdIntoScim_lookup:
  "obj_get (mergeAdIntoScim u ad) ''userName'' =
     (if truthy (obj_get ad ''SamAccountName'') then obj_get ad ''SamAccountName''
      else obj_get u ''userName'')"
  "obj_get (mergeAdIntoScim u ad) ''displayName'' =
     (if truthy (obj_get ad ''DisplayName'') then obj_get ad ''DisplayName''
      else obj_get u ''displayName'')"
  "obj_get (mergeAdIntoScim u ad) ''name'' =
     (if truthy (obj_get ad ''GivenName'') \<or> truthy (obj_get ad ''Surname'')
      then JObj (set_if_truthy
                  (set_if_truthy
                     (spread_into []
                        (if nullish (obj_get u ''name'') then JObj [] else obj_get u ''name''))
                     ''givenName'' (obj_get ad ''GivenName''))
                  ''familyName'' (obj_get ad ''Surname''))
      else obj_get u ''name'')"
  "obj_get (mergeAdIntoScim u ad) ''emails'' =
     (if truthy (obj_get ad ''EmailAddress'')
      then JArr [JObj [(''value'', obj_get ad ''EmailAddress''), (''type'', JStr ''work''),
                       (''primary'', JBool True)]]
      else obj_get u ''emails'')"
  "obj_get (mergeAdIntoScim u ad) ''active'' =
     (if \<exists>b. obj_get ad ''Enabled'' = JBool b then obj_get ad ''Enabled''
      else obj_get u ''active'')"
  "obj_get (mergeAdIntoScim u ad) ''externalId'' = obj_get u ''externalId''"
  unfolding mergeAdIntoScim_def Let_def
  by (simp_all add: enabled_lookup obj_get_set obj_get_set_if_truthy spread_object
      obj_get_own_entries)

lemma merge_name:
  assumes "truthy g \<or> truthy f"
    and "g = (if nullish n then JUndef else member n ''givenName'')"
    and "f = (if nullish n then JUndef else member n ''familyName'')"
    and "n' = JObj (set_if_truthy
              (set_if_truthy (spread_into [] (if nullish n then JObj [] else n))
                 ''givenName'' (if truthy g then g else JUndef))
              ''familyName'' (if truthy f then f else JUndef))"
  shows "(if nullish n' then JUndef else member n' ''givenName'') = g"
    and "(if nullish n' then JUndef else member n' ''familyName'') = f"
proof -
  from assms(1-3) obtain kvs where n: "n = JObj kvs"
    by (auto dest: member_truthy_object split: if_splits)
  show "(if nullish n' then JUndef else member n' ''givenName'') = g"
    by (simp add: assms(2-4) n obj_get_set_if_truthy spread_object obj_get_own_entries)
  show "(if nullish n' then JUndef else member n' ''familyName'') = f"
    by (simp add: assms(2-4) n obj_get_set_if_truthy spread_object obj_get_own_entries)
qed

lemma mapper_round_trip_aux:
  assumes "scimToAdParams u ou = Inr ps"
  shows "mapped_subset (mergeAdIntoScim u ps) = mapped_subset u"
proof -
  from assms obtain p1 ev where p1: "user_name_params (obj_get u ''userName'') = Inr p1"
    and ev: "email_of (obj_get u ''emails'') = Inr ev"
    and ps: "ps = rest_params u ou p1 ev"
    by (auto simp: scimToAdParams_steps split: sum.splits)
  note l = rest_params_lookup [OF user_name_params_lookup(1) [OF p1]
      user_name_params_lookup(2) [OF p1], of u ou ev, folded ps]
  note m = mergeAdIntoScim_lookup [of u ps]
  define n where "n = obj_get u ''name''"
  define g where "g = (if nullish n then JUndef else member n ''givenName'')"
  define f where "f = (if nullish n then JUndef else member n ''familyName'')"
  define n' where "n' = obj_get (mergeAdIntoScim u ps) ''name''"
  have gn: "obj_get ps ''GivenName'' = (if truthy g then g else JUndef)"
    and sn: "obj_get ps ''Surname'' = (if truthy f then f else JUndef)"
    using l(3) l(4) by (simp_all add: Let_def n_def g_def f_def)
  have c_user: "obj_get (mergeAdIntoScim u ps) ''userName'' = obj_get u ''userName''"
    by (simp add: m(1) l(1))
  have c_display: "obj_get (mergeAdIntoScim u ps) ''displayName'' = obj_get u ''displayName''"
    by (simp add: m(2) l(2))
  have c_active: "obj_get (mergeAdIntoScim u ps) ''active'' = obj_get u ''active''"
    by (simp add: m(5) l(6))
  have c_email: "email_of (obj_get (mergeAdIntoScim u ps) ''emails'') =
      email_of (obj_get u ''emails'')"
  proof (cases "truthy ev")
    case True
    with l(5) have em: "obj_get ps ''EmailAddress'' = ev" by simp
    show ?thesis
      by (simp only: m(4) em True if_True email_of_merged [OF True] ev)
  next
    case False
    with l(5) have em: "obj_get ps ''EmailAddress'' = JUndef" by simp
    show ?thesis
      by (simp only: m(4) em truthy.simps if_False)
  qed
  have c_name: "(if nullish n' then JUndef else member n' ''givenName'') = g \<and>
      (if nullish n' then JUndef else member n' ''familyName'') = f"
  proof (cases "truthy g \<or> truthy f")
    case True
    have "n' = JObj (set_if_truthy
              (set_if_truthy (spread_into [] (if nullish n then JObj [] else n))
                 ''givenName'' (if truthy g then g else JUndef))
              ''familyName'' (if truthy f then f else JUndef))"
      using True by (auto simp: n'_def m(3) gn sn n_def)
    from merge_name [OF True g_def f_def this] show ?thesis by simp
  next
    case False
    then have "n' = n" by (simp add: n'_def m(3) gn sn n_def)
    then show ?thesis by (simp add: g_def f_def)
  qed
  note c_given = c_name [unfolded n'_def g_def f_def n_def, THEN conjunct1]
  note c_family = c_name [unfolded n'_def g_def f_def n_def, THEN conjunct2]
  show ?thesis
    unfolding mapped_subset_def Let_def c_user c_display c_active c_email m(6)
      c_given c_family
    by (rule refl)
qed

lemma find_primary_objects: "list_all is_object xs \<Longrightarrow> \<exists>r. find_primary xs = Inr r"
proof (induction xs)
  case Nil
  then show ?case by simp
next
  case (Cons x xs)
  then obtain kvs where "x = JObj kvs" by (cases x) auto
  with Cons show ?case by auto
qed

lemma typed_user_maps:
  assumes "scim_user_typed u"
  shows "\<exists>ps. scimToAdParams u ou = Inr ps"
proof -
  have "\<exists>p1. user_name_params (obj_get u ''userName'') = Inr p1"
    using assms
    by (cases "obj_get u ''userName''")
      (auto simp: scim_user_typed_def user_name_params_def Let_def)
  moreover have "\<exists>ev. email_of (obj_get u ''emails'') = Inr ev"
  proof (cases "obj_get u ''emails''")
    case (JArr xs)
    with assms have objs: "list_all is_object xs" by (simp add: scim_user_typed_def)
    show ?thesis
    proof (cases xs)
      case Nil
      with JArr show ?thesis by simp
    next
      case (Cons y ys)
      from find_primary_objects [OF objs] obtain r where "find_primary xs = Inr r" by blast
      with JArr Cons show ?thesis by (cases r) auto
    qed
  qed (use assms in \<open>auto simp: scim_user_typed_def\<close>)
  ultimately show ?thesis
    by (auto simp: scimToAdParams_steps)
qed

text \<open>
  C4. For any SCIM user, whenever the mapper produces a directory parameter set (which
  it does for every user whose userName and emails have their declared types), merging
  that set back into the user leaves the mapped subset as it was: userName,
  name.givenName, name.familyName, the primary e-mail value, displayName, active and
  externalId.
\<close>

theorem mapper_round_trip:
  "(scimToAdParams u ou = Inr ps \<longrightarrow>
      mapped_subset (mergeAdIntoScim u ps) = mapped_subset u) \<and>
   (scim_user_typed u \<longrightarrow>
      (\<exists>ps'. scimToAdParams u ou = Inr ps' \<and>
         mapped_subset (mergeAdIntoScim u ps') = mapped_subset u))"
  using mapper_round_trip_aux [of u ou] typed_user_maps [of u ou]
  by blast

theorem mapper_round_trip_witness:
  "scim_user_typed bob_resource \<and>
   scimToAdParams bob_resource None =
     Inr [(''SamAccountName'', JStr ''bob@ex.com''), (''UserPrincipalName'', JStr ''bob@ex.com''),
          (''GivenName'', JStr ''Bob''), (''Surname'', JStr ''Ross''),
          (''EmailAddress'', JStr ''bob@ex.com''), (''DisplayName'', JStr ''Bob Ross''),
          (''Enabled'', JBool False), (''EmployeeID'', JStr ''00u1''),
          (''Name'', JStr ''Bob Ross'')] \<and>
   mapped_subset (mergeAdIntoScim bob_resource
     [(''SamAccountName'', JStr ''bob@ex.com''), (''UserPrincipalName'', JStr ''bob@ex.com''),
      (''GivenName'', JStr ''Bob''), (''Surname'', JStr ''Ross''),
      (''EmailAddress'', JStr ''bob@ex.com''), (''DisplayName'', JStr ''Bob Ross''),
      (''Enabled'', JBool False), (''EmployeeID'', JStr ''00u1''),
      (''Name'', JStr ''Bob Ross'')]) = mapped_subset bob_resource \<and>
   mapped_subset bob_resource =
     (JStr ''bob@ex.com'', JStr ''Bob'', JStr ''Ross'', Inr (JStr ''bob@ex.com''),
      JStr ''Bob Ross'', JBool False, JStr ''00u1'')"
proof -
  have typed: "scim_user_typed bob_resource"
    by (simp add: scim_user_typed_def bob_resource_def obj_get_def)
  have maps: "scimToAdParams bob_resource None =
     Inr [(''SamAccountName'', JStr ''bob@ex.com''), (''UserPrincipalName'', JStr ''bob@ex.com''),
          (''GivenName'', JStr ''Bob''), (''Surname'', JStr ''Ross''),
          (''EmailAddress'', JStr ''bob@ex.com''), (''DisplayName'', JStr ''Bob Ross''),
          (''Enabled'', JBool False), (''EmployeeID'', JStr ''00u1''),
          (''Name'', JStr ''Bob Ross'')]"
    by (simp add: scimToAdParams_def bob_resource_def obj_get_def set_if_truthy_def Let_def)
  have subset: "mapped_subset bob_resource =
     (JStr ''bob@ex.com'', JStr ''Bob'', JStr ''Ross'', Inr (JStr ''bob@ex.com''),
      JStr ''Bob Ross'', JBool False, JStr ''00u1'')"
    by (simp add: mapped_subset_def bob_resource_def obj_get_def Let_def)
  from mapper_round_trip [of bob_resource None, THEN conjunct1, THEN mp, OF maps]
    typed maps subset
  show ?thesis by (intro conjI)
qed

theorem no_identity_keeps_pending_write_witness:
  "find_by_id ''u2'' example_db = Some orphan_row \<and>
   ad_object_guid orphan_row = None \<and> sam_account_name orphan_row = None \<and>
   put_users example_env ''u2'' [(''displayName'', JStr ''Bobby'')] (run_ok JNull) (run_ok JNull)
       example_db = (no_identity, orphan_replaced) \<and>
   stored_pending orphan_replaced ''u2'' (JObj [(''displayName'', JStr ''Bobby'')]) \<and>
   patch_users example_env ''u2'' [(''Operations'', JArr [rename_operation])]
       (run_ok JNull) (run_ok JNull) example_db = (no_identity, orphan_replaced) \<and>
   no_identity =
     Reply 500 []
       (JObj [(''schemas'', JArr [JStr ''urn:ietf:params:scim:api:messages:2.0:Error'']),
              (''status'', JNum 500),
              (''detail'',
               JStr ''Cannot identify AD account: no objectGUID or samAccountName.'')])"
proof -
  have found: "find_by_id ''u2'' example_db = Some orphan_row"
    by (simp add: find_by_id_def example_defs)
  have guid: "ad_object_guid orphan_row = None" and sam: "sam_account_name orphan_row = None"
    by (simp_all add: orphan_row_def)
  have persist: "put_persist example_env ''u2'' orphan_row [(''displayName'', JStr ''Bobby'')]
      example_db = Inr orphan_replaced"
    by (simp add: handler_defs example_defs orphan_replaced_def digit_char_def)
  have ops: "obj_get [(''Operations'', JArr [rename_operation])] ''Operations'' =
      JArr [rename_operation] \<and> [rename_operation] \<noteq> [] \<and>
      run_patch (scim_resource orphan_row) [rename_operation] =
        Inr (JObj [(''displayName'', JStr ''Bobby''), (''id'', JStr ''u2'')],
             [(''displayName'', JStr ''Bobby'')])"
    by (simp add: patch_defs rename_operation_def orphan_row_def obj_get_def
        toLowerCase_def lower_char_def prop_delete_def assign_all_def)
  have same: "patch_persist example_env ''u2''
      (JObj [(''displayName'', JStr ''Bobby''), (''id'', JStr ''u2'')]) example_db =
      orphan_replaced"
    by (simp add: handler_defs example_defs orphan_replaced_def digit_char_def)
  note t = no_identity_keeps_pending_write [OF found guid sam,
      of example_env "[(''displayName'', JStr ''Bobby'')]" orphan_replaced
         "run_ok JNull" "run_ok JNull"
         "[(''Operations'', JArr [rename_operation])]" "[rename_operation]"
         "JObj [(''displayName'', JStr ''Bobby''), (''id'', JStr ''u2'')]"
         "[(''displayName'', JStr ''Bobby'')]"]
  note put = t [THEN conjunct1, THEN mp, OF persist]
  note patch = t [THEN conjunct2, THEN mp, OF ops, unfolded same]
  have reply: "no_identity =
     Reply 500 []
       (JObj [(''schemas'', JArr [JStr ''urn:ietf:params:scim:api:messages:2.0:Error'']),
              (''status'', JNum 500),
              (''detail'',
               JStr ''Cannot identify AD account: no objectGUID or samAccountName.'')])"
    by (simp add: no_identity_def send_error_def formatError_def SCIM_SCHEMA_ERROR_def)
  from found guid sam put [THEN conjunct1] put [THEN conjunct2] patch [THEN conjunct1] reply
  show ?thesis by (intro conjI)
qed

section \<open>Listing with a userName filter\<close>

lemma parse_filter_x_at_y:
  "parseScimFilter filter_x_at_y =
     Some \<lparr>attribute = ''userName'', operator = ''eq'', filter_value = ''x@y'',
           dbColumn = ''sam_account_name''\<rparr>"
  by (simp add: parseScimFilter_def filter_x_at_y_def dquote_def trim_def is_space_def
      toLowerCase_def lower_char_def FILTER_OPERATORS_def ATTRIBUTE_TO_COLUMN_def Let_def)

lemma list_predicate_x_at_y:
  "list_predicate (Some filter_x_at_y) = (\<lambda>r. sam_account_name r = Some ''x@y'')"
proof -
  have "filter_x_at_y \<noteq> []" by (simp add: filter_x_at_y_def)
  then show ?thesis
    by (simp add: list_predicate_def parse_filter_x_at_y column_value_def)
qed

text \<open>
  C6 (the code departs from it). The filter \<open>userName eq "x@y"\<close> is parsed as
  supported, with userName mapped to the column sam_account_name; but the list
  operation then compares the column with the whole filter value \<open>x@y\<close>, while the
  rows hold the part of the userName before the \<open>@\<close>. In a cache whose
  sam_account_name values contain no \<open>@\<close> (all that create and replace persist) the
  filtered page is empty for every start index and count: the row with
  sam_account_name \<open>x\<close> is not in it.
\<close>

theorem userName_filter_misses_row:
  "parseScimFilter filter_x_at_y =
     Some \<lparr>attribute = ''userName'', operator = ''eq'', filter_value = ''x@y'',
           dbColumn = ''sam_account_name''\<rparr> \<and>
   (list_all sam_well_formed (scim_users s) \<longrightarrow>
      list_users e (Some filter_x_at_y) startIndex pageCount s =
        (Reply 200 scim_json (formatListResponse [] 0 (max 1 startIndex)), s))"
proof (intro conjI impI)
  show "parseScimFilter filter_x_at_y =
     Some \<lparr>attribute = ''userName'', operator = ''eq'', filter_value = ''x@y'',
           dbColumn = ''sam_account_name''\<rparr>"
    by (rule parse_filter_x_at_y)
next
  assume wf: "list_all sam_well_formed (scim_users s)"
  have "filter (\<lambda>r. sam_account_name r = Some ''x@y'') (scim_users s) = []"
    using wf by (auto simp: filter_empty_conv list_all_iff sam_well_formed_def)
  then show "list_users e (Some filter_x_at_y) startIndex pageCount s =
        (Reply 200 scim_json (formatListResponse [] 0 (max 1 startIndex)), s)"
    by (simp add: list_users_def list_predicate_x_at_y Let_def)
qed

theorem userName_filter_misses_row_witness:
  "list_all sam_well_formed (scim_users x_db) \<and>
   map sam_account_name (scim_users x_db) = [Some ''x''] \<and>
   list_users example_env (Some filter_x_at_y) 1 100 x_db =
     (Reply 200 [(''Content-Type'', ''application/scim+json'')]
        (JObj [(''schemas'', JArr [JStr ''urn:ietf:params:scim:api:messages:2.0:ListResponse'']),
               (''totalResults'', JNum 0), (''startIndex'', JNum 1),
               (''itemsPerPage'', JNum 0), (''Resources'', JArr [])]), x_db) \<and>
   fst (list_users example_env None 1 100 x_db) =
     Reply 200 [(''Content-Type'', ''application/scim+json'')]
       (formatListResponse [formatScimUser x_row ''https://scim.ex.com''] 1 1)"
proof -
  have wf: "list_all sam_well_formed (scim_users x_db)"
    by (simp add: x_db_def x_row_def sam_well_formed_def)
  have rows: "map sam_account_name (scim_users x_db) = [Some ''x'']"
    by (simp add: x_db_def x_row_def)
  have shape: "(Reply 200 scim_json (formatListResponse [] 0 (max 1 1)), x_db) =
     (Reply 200 [(''Content-Type'', ''application/scim+json'')]
        (JObj [(''schemas'', JArr [JStr ''urn:ietf:params:scim:api:messages:2.0:ListResponse'']),
               (''totalResults'', JNum 0), (''startIndex'', JNum 1),
               (''itemsPerPage'', JNum 0), (''Resources'', JArr [])]), x_db)"
    by (simp add: scim_json_def formatListResponse_def SCIM_SCHEMA_LIST_def)
  have unfiltered: "fst (list_users example_env None 1 100 x_db) =
     Reply 200 [(''Content-Type'', ''application/scim+json'')]
       (formatListResponse [formatScimUser x_row ''https://scim.ex.com''] 1 1)"
    by (simp add: list_users_def list_predicate_def x_db_def scim_json_def example_env_def
        Let_def)
  from userName_filter_misses_row [of x_db example_env 1 100, THEN conjunct2, THEN mp, OF wf]
  have "list_users example_env (Some filter_x_at_y) 1 100 x_db =
     (Reply 200 [(''Content-Type'', ''application/scim+json'')]
        (JObj [(''schemas'', JArr [JStr ''urn:ietf:params:scim:api:messages:2.0:ListResponse'']),
               (''totalResults'', JNum 0), (''startIndex'', JNum 1),
               (''itemsPerPage'', JNum 0), (''Resources'', JArr [])]), x_db)"
    by (simp only: shape)
  with wf rows unfiltered show ?thesis by (intro conjI)
qed

end
